theory Spec2Isabelle
  imports Complex_Main
begin

section \<open>RIPER-5 workflow engine: data model\<close>

text \<open>
  The engine keeps one JSON document per task. Mode names, task ids and notes are
  JavaScript strings. A timestamp is stored as an ISO string and read back with
  \<^verbatim>\<open>new Date(...)\<close>; it is modelled by the number of milliseconds it denotes.
  The user-visible messages of the source are Chinese text; errors and messages are
  modelled by datatypes whose constructors name the message, with its parameters.
\<close>

type_synonym mode = string
type_synonym timestamp = int

record history_entry =
  h_mode :: mode
  h_timestamp :: timestamp
  h_note :: string
  h_comment :: "string option"

record checklist_item =
  item_text :: string
  completed :: bool

record artifact =
  a_fields :: "(string \<times> string) list"
  a_id :: string
  a_createdAt :: timestamp

record metadata =
  createdAt :: timestamp
  updatedAt :: timestamp

record workflow_state =
  taskId :: string
  currentMode :: mode
  modeHistory :: "history_entry list"
  checklistProgress :: "mode \<rightharpoonup> checklist_item list"
  s_notes :: "mode \<rightharpoonup> string"
  artifacts :: "mode \<rightharpoonup> artifact list"
  metadata :: metadata

text \<open>The state directory: one file per task id, holding the serialised state.\<close>

type_synonym store = "string \<rightharpoonup> workflow_state"

subsection \<open>Configuration (config.js)\<close>

record mode_config =
  nextModes :: "mode list"
  checklistItems :: "string list"

text \<open>
  The configuration of a project root: the modes, the default mode, and the state
  directory it names (\<^verbatim>\<open>paths.stateDir\<close>). The directory enters the model through
  \<open>writable\<close>: whether the file system accepts the write of the state file of a task id
  there (\<^verbatim>\<open>fs.writeFile\<close> throws otherwise, for instance on a file name that is too long).
\<close>

record config =
  modes :: "(mode \<times> mode_config) list"
  defaultMode :: mode
  writable :: "string \<Rightarrow> bool"

text \<open>\<^verbatim>\<open>cfg.modes[m]?.nextModes || []\<close>\<close>

definition nextModeOptions :: "config \<Rightarrow> mode \<Rightarrow> mode list" where
  "nextModeOptions cfg m =
     (case map_of (modes cfg) m of None \<Rightarrow> [] | Some mc \<Rightarrow> nextModes mc)"

text \<open>The file name of \<^verbatim>\<open>getStateFilePath\<close>.\<close>

definition stateFileName :: "string \<Rightarrow> string" where
  "stateFileName tid = tid @ ''.riper5.json''"

text \<open>
  \<^verbatim>\<open>DEFAULT_CONFIG\<close>. The checklist items of the source are Chinese sentences; each is
  rendered here by a short English gloss. The successor lists are the source's. Its state
  directory is taken to lie on a file system that accepts file names of up to 255 bytes.
\<close>

definition DEFAULT_CONFIG :: config where
  "DEFAULT_CONFIG = \<lparr>
     modes = [
       (''research'', \<lparr>nextModes = [''innovate'', ''plan''],
          checklistItems = [''research question defined'', ''information collected'',
            ''data analysed'', ''key problems identified'', ''findings recorded'']\<rparr>),
       (''innovate'', \<lparr>nextModes = [''plan''],
          checklistItems = [''innovation techniques applied'', ''several solutions generated'',
            ''feasibility assessed'', ''best path selected'', ''decisions recorded'']\<rparr>),
       (''plan'', \<lparr>nextModes = [''execute''],
          checklistItems = [''goals defined'', ''task broken into steps'',
            ''schedule and milestones set'', ''resources assigned'', ''risks identified'']\<rparr>),
       (''execute'', \<lparr>nextModes = [''review''],
          checklistItems = [''execution started per plan'', ''progress tracked'',
            ''obstacles handled'', ''stakeholders informed'', ''planned work completed'']\<rparr>),
       (''review'', \<lparr>nextModes = [''research'', ''innovate'', ''plan'', ''execute''],
          checklistItems = [''results assessed against goals'', ''feedback collected'',
            ''successes and gaps analysed'', ''improvements proposed'', ''lessons recorded'']\<rparr>)],
     defaultMode = ''research'',
     writable = (\<lambda>tid. length (stateFileName tid) \<le> 255) \<rparr>"

section \<open>State manager (state-manager.js)\<close>

datatype error =
    NoTaskId
  | StateUnavailable string
  | ModeNotFound mode
  | InvalidChecklistIndex int
  | InvalidHistoryIndex int
  | WriteFailed string
  | HookThrew string
  | Failed string error

type_synonym 'a result = "error + 'a"

record create_options =
  initialMode :: "mode option"
  o_note :: "string option"

text \<open>\<^verbatim>\<open>a || b\<close> on an optional string: an absent or empty \<open>a\<close> is falsy.\<close>

fun js_or :: "string option \<Rightarrow> string \<Rightarrow> string" where
  "js_or None d = d"
| "js_or (Some []) d = d"
| "js_or (Some s) d = s"

text \<open>The default note of the initial history entry (a Chinese sentence in the source).\<close>

definition init_note :: string where
  "init_note = ''RIPER-5 workflow initialised''"

text \<open>\<^verbatim>\<open>saveState\<close> writes the file of the task, or throws when the write is refused.\<close>

definition saveState :: "config \<Rightarrow> string \<Rightarrow> workflow_state \<Rightarrow> store \<Rightarrow> store result" where
  "saveState cfg tid s st = (if writable cfg tid then Inr (st(tid \<mapsto> s)) else Inl (WriteFailed tid))"

definition new_item :: "string \<Rightarrow> checklist_item" where
  "new_item t = \<lparr>item_text = t, completed = False\<rparr>"

definition createState ::
  "config \<Rightarrow> timestamp \<Rightarrow> string \<Rightarrow> create_options \<Rightarrow> store \<Rightarrow> workflow_state result \<times> store"
where
  "createState cfg now tid options st =
     (let initial = js_or (initialMode options) (defaultMode cfg);
          newState = \<lparr>
            taskId = tid,
            currentMode = initial,
            modeHistory = [\<lparr>h_mode = initial, h_timestamp = now,
                            h_note = js_or (o_note options) init_note, h_comment = None\<rparr>],
            checklistProgress =
              map_of (map (\<lambda>(m, mc). (m, map new_item (checklistItems mc))) (modes cfg)),
            s_notes = map_of (map (\<lambda>(m, mc). (m, [])) (modes cfg)),
            artifacts = map_of (map (\<lambda>(m, mc). (m, [])) (modes cfg)),
            metadata = \<lparr>createdAt = now, updatedAt = now\<rparr> \<rparr>
      in case saveState cfg tid newState st of
           Inl e \<Rightarrow> (Inl (Failed ''createState'' e), st)
         | Inr st' \<Rightarrow> (Inr newState, st'))"

definition no_options :: create_options where
  "no_options = \<lparr>initialMode = None, o_note = None\<rparr>"

text \<open>
  \<^verbatim>\<open>getState\<close>: read the task's file; when there is none, create the state (the result
  of \<^verbatim>\<open>createState\<close> is returned as it is, also when it is a failure). The files of
  the state directory are those the engine wrote, so a file that exists can be read and
  parsed. Where the file system refuses the very name of the file, the source fails in
  \<^verbatim>\<open>fs.access\<close> instead of \<^verbatim>\<open>createState\<close>: a failure too, with another message
  and also without a write; the callers of \<^verbatim>\<open>getState\<close> read the success flag and
  the state only.
\<close>

definition getState ::
  "config \<Rightarrow> timestamp \<Rightarrow> string \<Rightarrow> store \<Rightarrow> workflow_state result \<times> store"
where
  "getState cfg now tid st =
     (case st tid of
        Some s \<Rightarrow> (Inr s, st)
      | None \<Rightarrow> createState cfg now tid no_options st)"

record updates =
  u_currentMode :: "mode option"
  u_modeHistory :: "history_entry list option"
  u_checklistProgress :: "(mode \<rightharpoonup> checklist_item list) option"
  u_notes :: "(mode \<rightharpoonup> string) option"
  u_artifacts :: "(mode \<rightharpoonup> artifact list) option"

definition no_updates :: updates where
  "no_updates = \<lparr>u_currentMode = None, u_modeHistory = None, u_checklistProgress = None,
     u_notes = None, u_artifacts = None\<rparr>"

text \<open>\<^verbatim>\<open>{...state, ...updates, metadata: {...state.metadata, updatedAt: now}}\<close>\<close>

definition apply_updates :: "timestamp \<Rightarrow> updates \<Rightarrow> workflow_state \<Rightarrow> workflow_state" where
  "apply_updates now u s = s\<lparr>
     currentMode := (case u_currentMode u of None \<Rightarrow> currentMode s | Some m \<Rightarrow> m),
     modeHistory := (case u_modeHistory u of None \<Rightarrow> modeHistory s | Some h \<Rightarrow> h),
     checklistProgress :=
       (case u_checklistProgress u of None \<Rightarrow> checklistProgress s | Some c \<Rightarrow> c),
     s_notes := (case u_notes u of None \<Rightarrow> s_notes s | Some n \<Rightarrow> n),
     artifacts := (case u_artifacts u of None \<Rightarrow> artifacts s | Some a \<Rightarrow> a),
     metadata := (metadata s)\<lparr>updatedAt := now\<rparr> \<rparr>"

definition updateState ::
  "config \<Rightarrow> timestamp \<Rightarrow> string \<Rightarrow> updates \<Rightarrow> store \<Rightarrow> workflow_state result \<times> store"
where
  "updateState cfg now tid u st =
     (case getState cfg now tid st of
        (Inl e, st') \<Rightarrow> (Inl (Failed ''updateState'' (StateUnavailable tid)), st')
      | (Inr s, st') \<Rightarrow>
          (let updatedState = apply_updates now u s
           in case saveState cfg tid updatedState st' of
                Inl e \<Rightarrow> (Inl (Failed ''updateState'' e), st')
              | Inr st'' \<Rightarrow> (Inr updatedState, st'')))"

definition updateModeHistory ::
  "config \<Rightarrow> timestamp \<Rightarrow> string \<Rightarrow> mode \<Rightarrow> string \<Rightarrow> store \<Rightarrow> workflow_state result \<times> store"
where
  "updateModeHistory cfg now tid m note st =
     (case getState cfg now tid st of
        (Inl e, st') \<Rightarrow> (Inl (Failed ''updateModeHistory'' (StateUnavailable tid)), st')
      | (Inr s, st') \<Rightarrow>
          (let newHistoryEntry = \<lparr>h_mode = m, h_timestamp = now, h_note = note, h_comment = None\<rparr>
           in updateState cfg now tid
                (no_updates\<lparr>u_currentMode := Some m,
                            u_modeHistory := Some (modeHistory s @ [newHistoryEntry])\<rparr>) st'))"

definition updateChecklistItem ::
  "config \<Rightarrow> timestamp \<Rightarrow> string \<Rightarrow> mode \<Rightarrow> int \<Rightarrow> bool \<Rightarrow> store \<Rightarrow> workflow_state result \<times> store"
where
  "updateChecklistItem cfg now tid m itemIndex isDone st =
     (case getState cfg now tid st of
        (Inl e, st') \<Rightarrow> (Inl (Failed ''updateChecklistItem'' (StateUnavailable tid)), st')
      | (Inr s, st') \<Rightarrow>
          (case checklistProgress s m of
             None \<Rightarrow> (Inl (Failed ''updateChecklistItem'' (ModeNotFound m)), st')
           | Some items \<Rightarrow>
               if itemIndex < 0 \<or> itemIndex \<ge> int (length items)
               then (Inl (Failed ''updateChecklistItem'' (InvalidChecklistIndex itemIndex)), st')
               else
                 (let i = nat itemIndex;
                      updatedChecklist =
                        (checklistProgress s)(m \<mapsto> items[i := (items ! i)\<lparr>completed := isDone\<rparr>])
                  in updateState cfg now tid
                       (no_updates\<lparr>u_checklistProgress := Some updatedChecklist\<rparr>) st')))"

text \<open>
  \<^verbatim>\<open>updateNote\<close>: \<open>stamp\<close> is the ISO rendering of the clock, which the appended
  separator line quotes.
\<close>

definition updateNote ::
  "config \<Rightarrow> timestamp \<Rightarrow> string \<Rightarrow> string \<Rightarrow> mode \<Rightarrow> string \<Rightarrow> bool \<Rightarrow> store
     \<Rightarrow> workflow_state result \<times> store"
where
  "updateNote cfg now stamp tid m note appending st =
     (case getState cfg now tid st of
        (Inl e, st') \<Rightarrow> (Inl (Failed ''updateNote'' (StateUnavailable tid)), st')
      | (Inr s, st') \<Rightarrow>
          (case s_notes s m of
             None \<Rightarrow> (Inl (Failed ''updateNote'' (ModeNotFound m)), st')
           | Some old \<Rightarrow>
               (let updatedNotes =
                      (if appending
                       then (s_notes s)(m \<mapsto> old @ [CHR 0x0A, CHR 0x0A] @ ''--- '' @ stamp @ '' ---''
                                            @ [CHR 0x0A] @ note)
                       else (s_notes s)(m \<mapsto> note))
                in updateState cfg now tid (no_updates\<lparr>u_notes := Some updatedNotes\<rparr>) st')))"

text \<open>\<^verbatim>\<open>addArtifact\<close>: \<open>newId\<close> is the generated id (clock value and random suffix).\<close>

definition addArtifact ::
  "config \<Rightarrow> timestamp \<Rightarrow> string \<Rightarrow> string \<Rightarrow> mode \<Rightarrow> (string \<times> string) list \<Rightarrow> store
     \<Rightarrow> workflow_state result \<times> store"
where
  "addArtifact cfg now newId tid m flds st =
     (case getState cfg now tid st of
        (Inl e, st') \<Rightarrow> (Inl (Failed ''addArtifact'' (StateUnavailable tid)), st')
      | (Inr s, st') \<Rightarrow>
          (case artifacts s m of
             None \<Rightarrow> (Inl (Failed ''addArtifact'' (ModeNotFound m)), st')
           | Some arts \<Rightarrow>
               (let updatedArtifacts =
                      (artifacts s)(m \<mapsto> arts @ [\<lparr>a_fields = flds, a_id = newId, a_createdAt = now\<rparr>])
                in updateState cfg now tid
                     (no_updates\<lparr>u_artifacts := Some updatedArtifacts\<rparr>) st')))"

definition deleteState :: "string \<Rightarrow> store \<Rightarrow> store" where
  "deleteState tid st = st(tid := None)"

text \<open>\<^verbatim>\<open>updateStateFromFile\<close>: checklist and notes of one mode, read from the task file.\<close>

definition updateStateFromFile ::
  "config \<Rightarrow> timestamp \<Rightarrow> string \<Rightarrow> mode \<Rightarrow> checklist_item list option \<Rightarrow> string option \<Rightarrow> store
     \<Rightarrow> workflow_state result \<times> store"
where
  "updateStateFromFile cfg now tid m fileItems fileNotes st =
     (case getState cfg now tid st of
        (Inl e, st') \<Rightarrow> (Inl (Failed ''updateStateFromFile'' (StateUnavailable tid)), st')
      | (Inr s, st') \<Rightarrow>
          (let cp = (case fileItems of None \<Rightarrow> checklistProgress s
                     | Some items \<Rightarrow> (checklistProgress s)(m \<mapsto> items));
               ns = (case fileNotes of None \<Rightarrow> s_notes s
                     | Some [] \<Rightarrow> s_notes s
                     | Some n \<Rightarrow> (s_notes s)(m \<mapsto> n))
           in updateState cfg now tid
                (no_updates\<lparr>u_checklistProgress := Some cp, u_notes := Some ns\<rparr>) st'))"

section \<open>History annotations (mode-history.js)\<close>

definition addCommentToHistory ::
  "config \<Rightarrow> timestamp \<Rightarrow> string \<Rightarrow> int \<Rightarrow> string \<Rightarrow> store \<Rightarrow> workflow_state result \<times> store"
where
  "addCommentToHistory cfg now tid historyIndex c st =
     (case getState cfg now tid st of
        (Inl e, st') \<Rightarrow> (Inl (Failed ''addCommentToHistory'' (StateUnavailable tid)), st')
      | (Inr s, st') \<Rightarrow>
          if historyIndex < 0 \<or> historyIndex \<ge> int (length (modeHistory s))
          then (Inl (InvalidHistoryIndex historyIndex), st')
          else
            (let i = nat historyIndex;
                 s' = s\<lparr>modeHistory := (modeHistory s)[i := (modeHistory s ! i)\<lparr>h_comment := Some c\<rparr>]\<rparr>
             in case saveState cfg tid s' st' of
                  Inl e \<Rightarrow> (Inl (Failed ''addCommentToHistory'' e), st')
                | Inr st'' \<Rightarrow> (Inr s', st'')))"

section \<open>Transition rules (mode-rules.js)\<close>

datatype msg =
    SkipNoState
  | SkipNoChecklist
  | ChecklistInsufficient int
  | RecommendCompleteMore
  | ChecklistSufficient
  | NoRestriction
  | InvalidPath mode mode
  | ValidOptions "mode list"
  | PathValid
  | NoHistoryForMode
  | DwellTooShort int
  | RecommendDwell int
  | DwellEnough
  | RuleThrew string
  | CustomMsg string

record rule_outcome =
  isValid :: bool
  message :: msg
  recommendation :: "msg option"
  severity :: "string option"

record rule_context =
  c_taskId :: string
  c_state :: workflow_state

text \<open>
  What a callback of the caller (a rule's condition, a hook) throws or rejects with: any
  JavaScript value. The engine's catch blocks read \<^verbatim>\<open>error.message\<close>: that is a text
  for an Error (and \<^verbatim>\<open>undefined\<close>, rendered as text, for another object or a
  primitive), and it throws a TypeError when the value is \<^verbatim>\<open>undefined\<close> or
  \<^verbatim>\<open>null\<close>.
\<close>

datatype js_throw = ThrowNullish | ThrowValue string

text \<open>
  A rule's \<^verbatim>\<open>condition\<close> is an asynchronous callback. It may read the state directory
  and the clock, and it either returns an outcome (\<open>Inr\<close>) or throws (\<open>Inl\<close>).
\<close>

record rule =
  r_id :: string
  r_name :: string
  condition :: "mode \<Rightarrow> mode \<Rightarrow> rule_context \<Rightarrow> store \<Rightarrow> timestamp \<Rightarrow> js_throw + rule_outcome"

definition passes :: "msg \<Rightarrow> rule_outcome" where
  "passes m = \<lparr>isValid = True, message = m, recommendation = None, severity = None\<rparr>"

definition checklistCompletionRule :: "config \<Rightarrow> rule" where
  "checklistCompletionRule cfg = \<lparr>
     r_id = ''checklist-completion'',
     r_name = ''checklist completion rule'',
     condition = (\<lambda>fromMode toMode ctx st now.
       case fst (getState cfg now (c_taskId ctx) st) of
         Inl e \<Rightarrow> Inr (passes SkipNoState)
       | Inr s \<Rightarrow>
           (let checklist = (case checklistProgress s fromMode of None \<Rightarrow> [] | Some c \<Rightarrow> c)
            in if length checklist = 0 then Inr (passes SkipNoChecklist)
               else
                 (let completedItems = length (filter completed checklist);
                      completionRate = (of_nat completedItems :: rat) / of_nat (length checklist)
                  in if completionRate < 7 / 10
                     then Inr \<lparr>isValid = False,
                               message = ChecklistInsufficient (round (completionRate * 100)),
                               recommendation = Some RecommendCompleteMore,
                               severity = Some ''warning''\<rparr>
                     else Inr (passes ChecklistSufficient)))) \<rparr>"

definition validTransitionRule :: "config \<Rightarrow> rule" where
  "validTransitionRule cfg = \<lparr>
     r_id = ''valid-transition-path'',
     r_name = ''valid transition path rule'',
     condition = (\<lambda>fromMode toMode ctx st now.
       (let nextOptions = nextModeOptions cfg fromMode
        in if length nextOptions = 0 then Inr (passes NoRestriction)
           else if toMode \<notin> set nextOptions
           then Inr \<lparr>isValid = False, message = InvalidPath fromMode toMode,
                     recommendation = Some (ValidOptions nextOptions),
                     severity = Some ''error''\<rparr>
           else Inr (passes PathValid))) \<rparr>"

definition minTimeThreshold :: int where
  "minTimeThreshold = 5 * 60 * 1000"

definition minTimeSpentRule :: "config \<Rightarrow> rule" where
  "minTimeSpentRule cfg = \<lparr>
     r_id = ''min-time-spent'',
     r_name = ''minimum dwell time rule'',
     condition = (\<lambda>fromMode toMode ctx st now.
       case fst (getState cfg now (c_taskId ctx) st) of
         Inl e \<Rightarrow> Inr (passes SkipNoState)
       | Inr s \<Rightarrow>
           (case List.find (\<lambda>h. h_mode h = fromMode) (modeHistory s) of
              None \<Rightarrow> Inr (passes NoHistoryForMode)
            | Some lastModeChange \<Rightarrow>
                (let timeSpent = now - h_timestamp lastModeChange
                 in if timeSpent < minTimeThreshold
                    then Inr \<lparr>isValid = False, message = DwellTooShort timeSpent,
                              recommendation = Some (RecommendDwell minTimeThreshold),
                              severity = Some ''warning''\<rparr>
                    else Inr (passes DwellEnough)))) \<rparr>"

record ruleRegistry =
  r_default :: "rule list"
  r_custom :: "rule list"

definition addDefaultRules :: "config \<Rightarrow> ruleRegistry \<Rightarrow> ruleRegistry" where
  "addDefaultRules cfg reg =
     reg\<lparr>r_default := [checklistCompletionRule cfg, validTransitionRule cfg, minTimeSpentRule cfg]\<rparr>"

record rule_result = rule_outcome +
  ruleId :: string
  ruleName :: string
  thrown :: "string option"

text \<open>
  One rule's promise of \<^verbatim>\<open>validationPromises\<close>: it resolves to the outcome with the
  rule's id and name, or, in the catch branch, to a passing entry that quotes
  \<^verbatim>\<open>error.message\<close>; when the condition threw \<^verbatim>\<open>undefined\<close> or \<^verbatim>\<open>null\<close>,
  reading the message throws inside the catch branch and the promise rejects (\<open>None\<close>).
\<close>

definition run_rule ::
  "mode \<Rightarrow> mode \<Rightarrow> rule_context \<Rightarrow> store \<Rightarrow> timestamp \<Rightarrow> rule \<Rightarrow> rule_result option"
where
  "run_rule fromMode toMode ctx st now r =
     (case condition r fromMode toMode ctx st now of
        Inr res \<Rightarrow> Some \<lparr>isValid = isValid res, message = message res,
                     recommendation = recommendation res, severity = severity res,
                     ruleId = r_id r, ruleName = r_name r, thrown = None\<rparr>
      | Inl (ThrowValue e) \<Rightarrow> Some \<lparr>isValid = True, message = RuleThrew e,
                   recommendation = None, severity = None,
                   ruleId = r_id r, ruleName = r_name r, thrown = Some e\<rparr>
      | Inl ThrowNullish \<Rightarrow> None)"

text \<open>The body of \<^verbatim>\<open>results.forEach\<close>, on the triple (isValid, errors, warnings).\<close>

definition tally ::
  "bool \<Rightarrow> bool \<times> rule_result list \<times> rule_result list \<Rightarrow> rule_result
     \<Rightarrow> bool \<times> rule_result list \<times> rule_result list"
where
  "tally includeWarnings acc result =
     (case acc of (valid, errors, warnings) \<Rightarrow>
        if \<not> isValid result then
          if severity result = Some ''error'' then (False, errors @ [result], warnings)
          else if severity result = Some ''warning''
          then ((if includeWarnings then False else valid), errors, warnings @ [result])
          else (False, errors @ [result], warnings)
        else (valid, errors, warnings))"

record validation =
  v_success :: bool
  v_isValid :: bool
  v_results :: "rule_result list"
  v_errors :: "rule_result list"
  v_warnings :: "rule_result list"

definition aggregate :: "bool \<Rightarrow> rule_result list \<Rightarrow> validation" where
  "aggregate includeWarnings results =
     (case foldl (tally includeWarnings) (True, [], []) results of
        (valid, errors, warnings) \<Rightarrow>
          \<lparr>v_success = True, v_isValid = valid, v_results = results,
           v_errors = errors, v_warnings = warnings\<rparr>)"

text \<open>
  The object the outer catch of \<^verbatim>\<open>validateTransition\<close> returns: success and isValid
  are false, and it has no results, errors or warnings (the lists are empty here;
  \<^verbatim>\<open>switchMode\<close> reads them only through
  \<^verbatim>\<open>validation.errors && validation.errors.length > 0\<close>).
\<close>

definition validation_error :: validation where
  "validation_error = \<lparr>v_success = False, v_isValid = False, v_results = [],
     v_errors = [], v_warnings = []\<rparr>"

text \<open>
  \<^verbatim>\<open>validateTransition\<close>: \<^verbatim>\<open>Promise.all\<close> resolves to the entries of all rules, or
  rejects when the promise of a rule rejects, which the outer catch turns into the
  failure object.
\<close>

definition validateTransition ::
  "ruleRegistry \<Rightarrow> mode \<Rightarrow> mode \<Rightarrow> rule_context \<Rightarrow> bool \<Rightarrow> store \<Rightarrow> timestamp \<Rightarrow> validation"
where
  "validateTransition reg fromMode toMode ctx includeWarnings st now =
     (let allRules = r_default reg @ r_custom reg
      in case those (map (run_rule fromMode toMode ctx st now) allRules) of
           None \<Rightarrow> validation_error
         | Some results \<Rightarrow> aggregate includeWarnings results)"

section \<open>History analytics (mode-history.js)\<close>

text \<open>\<^verbatim>\<open>xs.join(',')\<close> and \<^verbatim>\<open>str.split(',')\<close> on strings.\<close>

fun join :: "string list \<Rightarrow> string" where
  "join [] = []"
| "join [x] = x"
| "join (x # y # ys) = x @ CHR '','' # join (y # ys)"

fun split :: "string \<Rightarrow> string list" where
  "split [] = [[]]"
| "split (c # cs) =
     (if c = CHR '','' then [] # split cs
      else (case split cs of w # ws \<Rightarrow> (c # w) # ws | [] \<Rightarrow> [[c]]))"

text \<open>\<^verbatim>\<open>xs.slice(a, b)\<close> for \<open>0 \<le> a \<le> b\<close>.\<close>

definition slice :: "'a list \<Rightarrow> nat \<Rightarrow> nat \<Rightarrow> 'a list" where
  "slice xs a b = take (b - a) (drop a xs)"

record cycle =
  pattern :: "mode list"
  startIndex :: nat
  cycleLength :: nat

text \<open>
  The body of the inner loop of \<^verbatim>\<open>identifyModeCycles\<close>, on the pair
  (cycles, seenPatterns); the set of seen patterns is kept as the list of its insertions.
\<close>

definition cycle_step ::
  "mode list \<Rightarrow> nat \<Rightarrow> cycle list \<times> string list \<Rightarrow> nat \<Rightarrow> cycle list \<times> string list"
where
  "cycle_step modeSequence len acc i =
     (case acc of (cycles, seenPatterns) \<Rightarrow>
        (let pat = slice modeSequence i (i + len);
             patternStr = join pat;
             nextPattern = slice modeSequence (i + len) (i + 2 * len);
             nextPatternStr = join nextPattern
         in if patternStr = nextPatternStr \<and> patternStr \<notin> set seenPatterns
            then (cycles @ [\<lparr>pattern = pat, startIndex = i, cycleLength = len\<rparr>],
                  seenPatterns @ [patternStr])
            else (cycles, seenPatterns)))"

text \<open>
  \<^verbatim>\<open>for (i = 0; i <= n - 2 * len; i++)\<close>: the bound is negative, and the loop empty,
  when \<open>n < 2 * len\<close>.
\<close>

definition cycle_positions :: "nat \<Rightarrow> nat \<Rightarrow> nat list" where
  "cycle_positions n len = [0 ..< Suc n - 2 * len]"

definition identifyModeCycles :: "mode list \<Rightarrow> cycle list" where
  "identifyModeCycles modeSequence =
     fst (foldl (\<lambda>acc len. foldl (cycle_step modeSequence len) acc
                              (cycle_positions (length modeSequence) len))
            ([], []) [2, 3, 4, 5])"

text \<open>
  \<^verbatim>\<open>patternCounts[k] = (patternCounts[k] || 0) + 1\<close> on an object whose keys are
  enumerated in insertion order (a key always holds a comma, so it is never an array
  index).
\<close>

fun bump :: "string \<Rightarrow> (string \<times> nat) list \<Rightarrow> (string \<times> nat) list" where
  "bump k [] = [(k, 1)]"
| "bump k ((k', c) # rest) = (if k = k' then (k', Suc c) # rest else (k', c) # bump k rest)"

record mode_pattern =
  p_pattern :: "mode list"
  occurrences :: nat

definition pattern_positions :: "nat \<Rightarrow> nat \<Rightarrow> nat list" where
  "pattern_positions n len = [0 ..< Suc n - len]"

definition identifyModePatterns :: "mode list \<Rightarrow> mode_pattern list" where
  "identifyModePatterns modeSequence =
     (let patternCounts =
            foldl (\<lambda>acc len.
                     foldl (\<lambda>acc' i. bump (join (slice modeSequence i (i + len))) acc') acc
                       (pattern_positions (length modeSequence) len))
              [] [2, 3]
      in map (\<lambda>(p, c). \<lparr>p_pattern = split p, occurrences = c\<rparr>)
           (sort_key (\<lambda>(p, c). - int c) (filter (\<lambda>(p, c). c > 1) patternCounts)))"

text \<open>The part of \<^verbatim>\<open>getModeTrends\<close> the mode manager reads.\<close>

definition mostCommonPattern :: "workflow_state \<Rightarrow> mode_pattern option" where
  "mostCommonPattern s =
     (case identifyModePatterns (map h_mode (modeHistory s)) of
        [] \<Rightarrow> None | p # ps \<Rightarrow> Some p)"

section \<open>Mode manager (mode-manager.js)\<close>

record hook_data =
  hd_taskId :: string
  fromMode :: mode
  toMode :: mode
  hd_state :: workflow_state

text \<open>A hook is a callback that returns (\<open>None\<close>) or throws (\<open>Some\<close> of what it throws).\<close>

type_synonym hook = "hook_data \<Rightarrow> js_throw option"

record hooks =
  beforeModeSwitch :: "hook list"
  afterModeSwitch :: "hook list"

text \<open>
  \<^verbatim>\<open>runHooks\<close>: every callback is called; \<^verbatim>\<open>Promise.all\<close> rejects with a rejection
  of one of them (the first in registration order here) and the \<^verbatim>\<open>await\<close> throws it.
\<close>

definition runHooks :: "hook list \<Rightarrow> hook_data \<Rightarrow> js_throw option" where
  "runHooks hs d =
     (if length hs = 0 then None
      else (case List.find (\<lambda>r. r \<noteq> None) (map (\<lambda>callback. callback d) hs) of
              None \<Rightarrow> None
            | Some r \<Rightarrow> r))"

record engine =
  e_cfg :: config
  e_rules :: ruleRegistry
  e_hooks :: hooks

record switch_options =
  o_taskId :: string
  o_switch_note :: string
  force :: bool
  ignoreWarnings :: bool

text \<open>The defaults of the destructured options: no note, no force, warnings ignored.\<close>

definition switch_defaults :: "string \<Rightarrow> switch_options" where
  "switch_defaults tid = \<lparr>o_taskId = tid, o_switch_note = [], force = False, ignoreWarnings = True\<rparr>"

text \<open>
  What a call of \<^verbatim>\<open>switchMode\<close> gives: the two successful objects (already in the mode;
  switched, with the previous mode), the two validation failures (with the validation
  report and the message of the first error or warning), the failure object of the catch
  branch, and \<open>SwitchThrew\<close> when the catch branch itself throws, so that the call rejects
  instead of returning an object.
\<close>

datatype switch_result =
    AlreadyInMode workflow_state
  | Switched workflow_state mode
  | ValidationFailed validation msg
  | ValidationWarned validation msg
  | SwitchFailed error
  | SwitchThrew

fun success :: "switch_result \<Rightarrow> bool" where
  "success (AlreadyInMode s) = True"
| "success (Switched s p) = True"
| "success (ValidationFailed v m) = False"
| "success (ValidationWarned v m) = False"
| "success (SwitchFailed e) = False"
| "success SwitchThrew = False"

text \<open>
  The catch branch of \<^verbatim>\<open>switchMode\<close> on what a hook threw: it quotes
  \<^verbatim>\<open>error.message\<close>, which throws for \<^verbatim>\<open>undefined\<close> and \<^verbatim>\<open>null\<close>.
\<close>

fun hook_failure :: "js_throw \<Rightarrow> switch_result" where
  "hook_failure (ThrowValue e) = SwitchFailed (HookThrew e)"
| "hook_failure ThrowNullish = SwitchThrew"

text \<open>The steps of \<^verbatim>\<open>switchMode\<close> after a successful validation (or none).\<close>

definition commit_switch ::
  "engine \<Rightarrow> timestamp \<Rightarrow> mode \<Rightarrow> switch_options \<Rightarrow> workflow_state \<Rightarrow> store
     \<Rightarrow> switch_result \<times> store"
where
  "commit_switch eng now m opts s st =
     (let tid = o_taskId opts; cur = currentMode s
      in case runHooks (beforeModeSwitch (e_hooks eng))
                \<lparr>hd_taskId = tid, fromMode = cur, toMode = m, hd_state = s\<rparr> of
           Some e \<Rightarrow> (hook_failure e, st)
         | None \<Rightarrow>
             (case updateModeHistory (e_cfg eng) now tid m (o_switch_note opts) st of
                (Inl e, st') \<Rightarrow> (SwitchFailed (Failed ''updateModeHistory'' e), st')
              | (Inr s', st') \<Rightarrow>
                  (case runHooks (afterModeSwitch (e_hooks eng))
                          \<lparr>hd_taskId = tid, fromMode = cur, toMode = m, hd_state = s'\<rparr> of
                     Some e \<Rightarrow> (hook_failure e, st')
                   | None \<Rightarrow> (Switched s' cur, st'))))"

text \<open>
  The validation step of \<^verbatim>\<open>switchMode\<close>: \<open>Some\<close> of the object returned when the
  transition is refused, \<open>None\<close> when the function goes on (also with \<^verbatim>\<open>force\<close>, which
  skips the validation).
\<close>

definition validation_gate ::
  "engine \<Rightarrow> timestamp \<Rightarrow> mode \<Rightarrow> switch_options \<Rightarrow> workflow_state \<Rightarrow> store
     \<Rightarrow> switch_result option"
where
  "validation_gate eng now m opts s st =
     (if \<not> force opts then
        (let v = validateTransition (e_rules eng) (currentMode s) m
                   \<lparr>c_taskId = o_taskId opts, c_state = s\<rparr> (\<not> ignoreWarnings opts) st now
         in if \<not> v_success v \<or> \<not> v_isValid v then
              if length (v_errors v) > 0
              then Some (ValidationFailed v (message (hd (v_errors v))))
              else if \<not> ignoreWarnings opts \<and> length (v_warnings v) > 0
              then Some (ValidationWarned v (message (hd (v_warnings v))))
              else None
            else None)
      else None)"

definition switchMode ::
  "engine \<Rightarrow> timestamp \<Rightarrow> mode \<Rightarrow> switch_options \<Rightarrow> store \<Rightarrow> switch_result \<times> store"
where
  "switchMode eng now m opts st =
     (let tid = o_taskId opts
      in if tid = [] then (SwitchFailed NoTaskId, st)
         else
           (case getState (e_cfg eng) now tid st of
              (Inl e, st') \<Rightarrow> (SwitchFailed (StateUnavailable tid), st')
            | (Inr s, st') \<Rightarrow>
                if currentMode s = m then (AlreadyInMode s, st')
                else
                  (case validation_gate eng now m opts s st' of
                     Some refused \<Rightarrow> (refused, st')
                   | None \<Rightarrow> commit_switch eng now m opts s st')))"

record progress =
  pr_mode :: mode
  totalItems :: nat
  completedItems :: nat
  percentage :: rat
  isComplete :: bool

definition getModeProgress ::
  "config \<Rightarrow> timestamp \<Rightarrow> string \<Rightarrow> mode \<Rightarrow> store \<Rightarrow> progress result \<times> store"
where
  "getModeProgress cfg now tid m st =
     (case getState cfg now tid st of
        (Inl e, st') \<Rightarrow> (Inl (Failed ''getModeProgress'' (StateUnavailable tid)), st')
      | (Inr s, st') \<Rightarrow>
          (case checklistProgress s m of
             None \<Rightarrow> (Inl (Failed ''getModeProgress'' (ModeNotFound m)), st')
           | Some checklist \<Rightarrow>
               (let total = length checklist;
                    completedCount = length (filter completed checklist);
                    progressPercentage =
                      (if total > 0 then (of_nat completedCount / of_nat total) * 100 else 0)
                in (Inr \<lparr>pr_mode = m, totalItems = total, completedItems = completedCount,
                         percentage = progressPercentage,
                         isComplete = (progressPercentage = 100)\<rparr>, st'))))"

datatype reason =
    Incomplete mode rat
  | NoNextModes mode
  | SingleNext mode
  | HistoricalPattern mode mode
  | MultipleCandidates

datatype recommended = NoMode | OneMode mode | ManyModes "mode list"

record recommendation_t =
  rec_mode :: recommended
  rec_reason :: reason
  primaryRecommendation :: "mode option"

text \<open>
  The loop over the most common pattern: the first position where the current mode is
  followed by one of the next-mode options.
\<close>

fun pattern_successor :: "mode \<Rightarrow> mode list \<Rightarrow> mode list \<Rightarrow> mode option" where
  "pattern_successor cur nextOptions (x # y # rest) =
     (if x = cur \<and> y \<in> set nextOptions then Some y
      else pattern_successor cur nextOptions (y # rest))"
| "pattern_successor cur nextOptions rest = None"

definition getNextRecommendedMode ::
  "config \<Rightarrow> timestamp \<Rightarrow> string \<Rightarrow> store \<Rightarrow> recommendation_t result \<times> store"
where
  "getNextRecommendedMode cfg now tid st =
     (case getState cfg now tid st of
        (Inl e, st') \<Rightarrow> (Inl (Failed ''getNextRecommendedMode'' (StateUnavailable tid)), st')
      | (Inr s, st') \<Rightarrow>
          (let cur = currentMode s
           in case getModeProgress cfg now tid cur st' of
                (Inl e, st'') \<Rightarrow> (Inl (Failed ''getNextRecommendedMode'' e), st'')
              | (Inr pr, st'') \<Rightarrow>
                  if \<not> isComplete pr
                  then (Inr \<lparr>rec_mode = OneMode cur, rec_reason = Incomplete cur (percentage pr),
                             primaryRecommendation = None\<rparr>, st'')
                  else
                    (let nextOptions = nextModeOptions cfg cur
                     in if length nextOptions = 0
                        then (Inr \<lparr>rec_mode = NoMode, rec_reason = NoNextModes cur,
                                   primaryRecommendation = None\<rparr>, st'')
                        else if length nextOptions = 1
                        then (Inr \<lparr>rec_mode = OneMode (hd nextOptions),
                                   rec_reason = SingleNext cur,
                                   primaryRecommendation = None\<rparr>, st'')
                        else
                          (case (case mostCommonPattern s of
                                   None \<Rightarrow> None
                                 | Some p \<Rightarrow> pattern_successor cur nextOptions (p_pattern p)) of
                             Some nxt \<Rightarrow>
                               (Inr \<lparr>rec_mode = OneMode nxt,
                                     rec_reason = HistoricalPattern cur nxt,
                                     primaryRecommendation = None\<rparr>, st'')
                           | None \<Rightarrow>
                               (Inr \<lparr>rec_mode = ManyModes nextOptions,
                                     rec_reason = MultipleCandidates,
                                     primaryRecommendation = Some (hd nextOptions)\<rparr>, st'')))))"

section \<open>Reachable stores\<close>

text \<open>
  The invariant of a stored state, and the stores the operations of the state manager,
  the mode manager and the history module can produce from an empty state directory.
\<close>

definition phase_inv :: "workflow_state \<Rightarrow> bool" where
  "phase_inv s = (modeHistory s \<noteq> [] \<and> currentMode s = h_mode (last (modeHistory s)))"

definition store_inv :: "store \<Rightarrow> bool" where
  "store_inv st = (\<forall>tid s. st tid = Some s \<longrightarrow> phase_inv s)"

definition benign :: "updates \<Rightarrow> bool" where
  "benign u = ((u_currentMode u = None \<and> u_modeHistory u = None)
      \<or> (\<exists>m h. u_currentMode u = Some m \<and> u_modeHistory u = Some h \<and> h \<noteq> [] \<and> h_mode (last h) = m))"

inductive reachable :: "store \<Rightarrow> bool" where
  init: "reachable Map.empty"
| created: "reachable st \<Longrightarrow> reachable (snd (createState cfg now tid options st))"
| fetched: "reachable st \<Longrightarrow> reachable (snd (getState cfg now tid st))"
| transitioned: "reachable st \<Longrightarrow> reachable (snd (updateModeHistory cfg now tid m note st))"
| switched: "reachable st \<Longrightarrow> reachable (snd (switchMode eng now m opts st))"
| checked: "reachable st \<Longrightarrow> reachable (snd (updateChecklistItem cfg now tid m i b st))"
| noted: "reachable st \<Longrightarrow> reachable (snd (updateNote cfg now stamp tid m note appending st))"
| attached: "reachable st \<Longrightarrow> reachable (snd (addArtifact cfg now newId tid m flds st))"
| imported: "reachable st \<Longrightarrow> reachable (snd (updateStateFromFile cfg now tid m items ns st))"
| annotated: "reachable st \<Longrightarrow> reachable (snd (addCommentToHistory cfg now tid i c st))"
| deleted: "reachable st \<Longrightarrow> reachable (deleteState tid st)"


text \<open>
  The state \<^verbatim>\<open>updateModeHistory\<close> writes when the task's state \<open>s\<close> is stored, and the
  arguments the two hook events receive in \<^verbatim>\<open>switchMode\<close>.
\<close>

definition entered :: "timestamp \<Rightarrow> mode \<Rightarrow> string \<Rightarrow> workflow_state \<Rightarrow> workflow_state" where
  "entered now m note s = s\<lparr>
     currentMode := m,
     modeHistory := modeHistory s @ [\<lparr>h_mode = m, h_timestamp = now, h_note = note, h_comment = None\<rparr>],
     metadata := (metadata s)\<lparr>updatedAt := now\<rparr>\<rparr>"

definition before_data :: "switch_options \<Rightarrow> mode \<Rightarrow> workflow_state \<Rightarrow> hook_data" where
  "before_data opts m s =
     \<lparr>hd_taskId = o_taskId opts, fromMode = currentMode s, toMode = m, hd_state = s\<rparr>"

definition after_data :: "timestamp \<Rightarrow> switch_options \<Rightarrow> mode \<Rightarrow> workflow_state \<Rightarrow> hook_data" where
  "after_data now opts m s =
     \<lparr>hd_taskId = o_taskId opts, fromMode = currentMode s, toMode = m,
      hd_state = entered now m (o_switch_note opts) s\<rparr>"

section \<open>Cycles of a mode sequence\<close>

text \<open>
  What the cycle detection is to find, on lists: position \<open>i\<close> repeats with length
  \<open>len\<close> when the \<open>len\<close> modes from \<open>i\<close> are followed at once by the same modes, and
  it is a first repeat when no earlier position repeats with the same modes. The function
  itself compares and remembers the patterns joined with commas; the remaining
  definitions name its tests for the proof.
\<close>

definition comma_free :: "string \<Rightarrow> bool" where
  "comma_free m = (CHR '','' \<notin> set m)"

definition repeats :: "mode list \<Rightarrow> nat \<Rightarrow> nat \<Rightarrow> bool" where
  "repeats modeSequence len i =
     (i + 2 * len \<le> length modeSequence
      \<and> slice modeSequence i (i + len) = slice modeSequence (i + len) (i + 2 * len))"

definition first_repeat :: "mode list \<Rightarrow> nat \<Rightarrow> nat \<Rightarrow> bool" where
  "first_repeat modeSequence len i =
     (repeats modeSequence len i
      \<and> (\<forall>j<i. repeats modeSequence len j \<longrightarrow>
             slice modeSequence j (j + len) \<noteq> slice modeSequence i (i + len)))"

definition cycle_at :: "mode list \<Rightarrow> nat \<Rightarrow> nat \<Rightarrow> cycle" where
  "cycle_at modeSequence len i =
     \<lparr>pattern = slice modeSequence i (i + len), startIndex = i, cycleLength = len\<rparr>"

definition pattern_key :: "mode list \<Rightarrow> nat \<Rightarrow> nat \<Rightarrow> string" where
  "pattern_key modeSequence len i = join (slice modeSequence i (i + len))"

definition key_repeats :: "mode list \<Rightarrow> nat \<Rightarrow> nat \<Rightarrow> bool" where
  "key_repeats modeSequence len i =
     (pattern_key modeSequence len i = join (slice modeSequence (i + len) (i + 2 * len)))"

definition fresh_key :: "string list \<Rightarrow> mode list \<Rightarrow> nat \<Rightarrow> nat \<Rightarrow> bool" where
  "fresh_key seen modeSequence len i =
     (key_repeats modeSequence len i \<and> pattern_key modeSequence len i \<notin> set seen
      \<and> (\<forall>j<i. key_repeats modeSequence len j \<longrightarrow>
             pattern_key modeSequence len j \<noteq> pattern_key modeSequence len i))"

definition known_keys :: "mode list \<Rightarrow> nat list \<Rightarrow> string list \<Rightarrow> bool" where
  "known_keys seq lens seen =
     (\<forall>k \<in> set seen. \<exists>len' j. len' \<notin> set lens \<and> 1 \<le> len' \<and> j + 2 * len' \<le> length seq
                          \<and> k = pattern_key seq len' j)"

section \<open>Example data\<close>

text \<open>
  The state \<^verbatim>\<open>createState\<close> writes for task \<open>T1\<close> at time 0 under the default
  configuration, an engine with the default rules and no hooks, a configuration with
  one mode whose checklist is empty, the state createState writes under it, and that state
  after a completed checklist item has been imported from the task file.
\<close>

definition demo_state :: workflow_state where
  "demo_state = \<lparr>
     taskId = ''T1'', currentMode = ''research'',
     modeHistory = [\<lparr>h_mode = ''research'', h_timestamp = 0, h_note = init_note, h_comment = None\<rparr>],
     checklistProgress =
       map_of (map (\<lambda>(m, mc). (m, map new_item (checklistItems mc))) (modes DEFAULT_CONFIG)),
     s_notes = map_of (map (\<lambda>(m, mc). (m, [])) (modes DEFAULT_CONFIG)),
     artifacts = map_of (map (\<lambda>(m, mc). (m, [])) (modes DEFAULT_CONFIG)),
     metadata = \<lparr>createdAt = 0, updatedAt = 0\<rparr> \<rparr>"

definition demo_store :: store where
  "demo_store = [''T1'' \<mapsto> demo_state]"

definition no_rules :: ruleRegistry where
  "no_rules = \<lparr>r_default = [], r_custom = []\<rparr>"

definition no_hooks :: hooks where
  "no_hooks = \<lparr>beforeModeSwitch = [], afterModeSwitch = []\<rparr>"

definition demo_engine :: engine where
  "demo_engine = \<lparr>e_cfg = DEFAULT_CONFIG, e_rules = addDefaultRules DEFAULT_CONFIG no_rules,
     e_hooks = no_hooks\<rparr>"


definition demo_context :: rule_context where
  "demo_context = \<lparr>c_taskId = ''T1'', c_state = demo_state\<rparr>"

definition bare_state :: workflow_state where
  "bare_state = \<lparr>
     taskId = ''T3'', currentMode = ''triage'',
     modeHistory = [\<lparr>h_mode = ''triage'', h_timestamp = 0, h_note = init_note, h_comment = None\<rparr>],
     checklistProgress = [''triage'' \<mapsto> []],
     s_notes = [''triage'' \<mapsto> []],
     artifacts = [''triage'' \<mapsto> []],
     metadata = \<lparr>createdAt = 0, updatedAt = 0\<rparr> \<rparr>"

definition imported_state :: workflow_state where
  "imported_state = bare_state\<lparr>
     checklistProgress := [''triage'' \<mapsto> [\<lparr>item_text = ''imported item'', completed = True\<rparr>]],
     metadata := \<lparr>createdAt = 0, updatedAt = 1\<rparr>\<rparr>"

definition bare_config :: config where
  "bare_config = \<lparr>modes = [(''triage'', \<lparr>nextModes = [''research''], checklistItems = []\<rparr>)],
     defaultMode = ''triage'',
     writable = (\<lambda>tid. length (stateFileName tid) \<le> 255)\<rparr>"



definition revisit_state :: workflow_state where
  "revisit_state = demo_state\<lparr>
     modeHistory :=
       [\<lparr>h_mode = ''research'', h_timestamp = 0, h_note = init_note, h_comment = None\<rparr>,
        \<lparr>h_mode = ''plan'', h_timestamp = 600000, h_note = [], h_comment = None\<rparr>,
        \<lparr>h_mode = ''research'', h_timestamp = 86400000, h_note = [], h_comment = None\<rparr>],
     metadata := \<lparr>createdAt = 0, updatedAt = 86400000\<rparr>\<rparr>"


definition throwing_rule :: rule where
  "throwing_rule = \<lparr>r_id = ''broken'', r_name = ''rule that throws'',
     condition = (\<lambda>f t ctx st now. Inl (ThrowValue ''boom''))\<rparr>"

definition rejecting_rule :: rule where
  "rejecting_rule = \<lparr>r_id = ''rejecting'', r_name = ''rule that rejects with undefined'',
     condition = (\<lambda>f t ctx st now. Inl ThrowNullish)\<rparr>"

definition throwing_hook :: hook where
  "throwing_hook d = Some (ThrowValue ''hook failed'')"

definition forced :: "string \<Rightarrow> switch_options" where
  "forced tid = (switch_defaults tid)\<lparr>force := True\<rparr>"

definition broken_engine :: engine where
  "broken_engine = demo_engine\<lparr>e_rules := (e_rules demo_engine)\<lparr>r_custom := [throwing_rule]\<rparr>\<rparr>"

definition rejecting_engine :: engine where
  "rejecting_engine = demo_engine\<lparr>e_rules := (e_rules demo_engine)\<lparr>r_custom := [rejecting_rule]\<rparr>\<rparr>"

definition hooked_engine :: engine where
  "hooked_engine = demo_engine\<lparr>e_hooks := \<lparr>beforeModeSwitch = [], afterModeSwitch = [throwing_hook]\<rparr>\<rparr>"

definition blocked_engine :: engine where
  "blocked_engine = demo_engine\<lparr>e_hooks := \<lparr>beforeModeSwitch = [throwing_hook], afterModeSwitch = []\<rparr>\<rparr>"

section \<open>Verified properties\<close>

subsection \<open>The state manager keeps the current mode equal to the last history entry\<close>

lemma store_inv_upd: "store_inv st \<Longrightarrow> phase_inv s \<Longrightarrow> store_inv (st(tid \<mapsto> s))"
  by (simp add: store_inv_def)

lemma createState_result:
  "(\<exists>s. createState cfg now tid options st = (Inr s, st(tid \<mapsto> s)) \<and> phase_inv s
        \<and> writable cfg tid)
   \<or> (\<exists>e. createState cfg now tid options st = (Inl e, st) \<and> \<not> writable cfg tid)"
  by (simp add: createState_def Let_def saveState_def phase_inv_def)

lemma getState_result:
  "(\<exists>s. getState cfg now tid st = (Inr s, st) \<and> st tid = Some s)
   \<or> (\<exists>s. getState cfg now tid st = (Inr s, st(tid \<mapsto> s)) \<and> st tid = None \<and> phase_inv s
          \<and> writable cfg tid)
   \<or> (\<exists>e. getState cfg now tid st = (Inl e, st) \<and> st tid = None \<and> \<not> writable cfg tid)"
proof (cases "st tid")
  case None
  then show ?thesis using createState_result[of cfg now tid no_options st]
    by (auto simp: getState_def)
next
  case (Some s)
  then show ?thesis by (simp add: getState_def)
qed

lemma getState_stored:
  assumes "getState cfg now tid st = (Inr s, st')"
  shows "st' tid = Some s"
  using getState_result[of cfg now tid st] assms by auto

lemma getState_inv:
  assumes "store_inv st"
  shows "store_inv (snd (getState cfg now tid st))"
    and "fst (getState cfg now tid st) = Inr s \<Longrightarrow> phase_inv s"
proof -
  show inv: "store_inv (snd (getState cfg now tid st))"
    using getState_result[of cfg now tid st] assms by (auto simp: store_inv_def split: if_splits)
  assume "fst (getState cfg now tid st) = Inr s"
  then have "snd (getState cfg now tid st) tid = Some s"
    using getState_stored[of cfg now tid st s "snd (getState cfg now tid st)"]
    by (cases "getState cfg now tid st") simp
  then show "phase_inv s" using inv by (auto simp: store_inv_def)
qed

lemma apply_updates_inv: "phase_inv s \<Longrightarrow> benign u \<Longrightarrow> phase_inv (apply_updates now u s)"
  by (auto simp: phase_inv_def benign_def apply_updates_def)

lemma updateState_inv:
  assumes "store_inv st" and "benign u"
  shows "store_inv (snd (updateState cfg now tid u st))"
proof (cases "getState cfg now tid st")
  case (Pair r st')
  have inv': "store_inv st'" using getState_inv(1)[OF assms(1), of cfg now tid] Pair by simp
  show ?thesis
  proof (cases r)
    case (Inl e)
    with Pair inv' show ?thesis by (simp add: updateState_def)
  next
    case (Inr s)
    then have "phase_inv s" using getState_inv(2)[OF assms(1), of cfg now tid s] Pair by simp
    then show ?thesis using Pair Inr inv' assms(2)
      by (simp add: updateState_def Let_def saveState_def store_inv_upd apply_updates_inv)
  qed
qed

lemma benign_simps:
  "benign (no_updates\<lparr>u_checklistProgress := x\<rparr>)"
  "benign (no_updates\<lparr>u_notes := y\<rparr>)"
  "benign (no_updates\<lparr>u_artifacts := z\<rparr>)"
  "benign (no_updates\<lparr>u_checklistProgress := x, u_notes := y\<rparr>)"
  "benign (no_updates\<lparr>u_currentMode := Some m,
      u_modeHistory := Some (h @ [\<lparr>h_mode = m, h_timestamp = t, h_note = n, h_comment = c\<rparr>])\<rparr>)"
  by (simp_all add: benign_def no_updates_def)

lemma updateModeHistory_inv:
  assumes "store_inv st" shows "store_inv (snd (updateModeHistory cfg now tid m note st))"
proof (cases "getState cfg now tid st")
  case (Pair r st')
  have inv': "store_inv st'" using getState_inv(1)[OF assms, of cfg now tid] Pair by simp
  show ?thesis using Pair inv'
    by (cases r) (simp_all add: updateModeHistory_def Let_def updateState_inv benign_simps)
qed

lemma updateChecklistItem_inv:
  assumes "store_inv st" shows "store_inv (snd (updateChecklistItem cfg now tid m i b st))"
proof (cases "getState cfg now tid st")
  case (Pair r st')
  have inv': "store_inv st'" using getState_inv(1)[OF assms, of cfg now tid] Pair by simp
  show ?thesis using Pair inv'
    by (cases r) (simp_all add: updateChecklistItem_def Let_def updateState_inv benign_simps
        split: option.splits)
qed

lemma updateNote_inv:
  assumes "store_inv st" shows "store_inv (snd (updateNote cfg now stamp tid m note appending st))"
proof (cases "getState cfg now tid st")
  case (Pair r st')
  have inv': "store_inv st'" using getState_inv(1)[OF assms, of cfg now tid] Pair by simp
  show ?thesis using Pair inv'
    by (cases r) (simp_all add: updateNote_def Let_def updateState_inv benign_simps
        split: option.splits)
qed

lemma addArtifact_inv:
  assumes "store_inv st" shows "store_inv (snd (addArtifact cfg now newId tid m flds st))"
proof (cases "getState cfg now tid st")
  case (Pair r st')
  have inv': "store_inv st'" using getState_inv(1)[OF assms, of cfg now tid] Pair by simp
  show ?thesis using Pair inv'
    by (cases r) (simp_all add: addArtifact_def Let_def updateState_inv benign_simps
        split: option.splits)
qed

lemma updateStateFromFile_inv:
  assumes "store_inv st" shows "store_inv (snd (updateStateFromFile cfg now tid m items ns st))"
proof (cases "getState cfg now tid st")
  case (Pair r st')
  have inv': "store_inv st'" using getState_inv(1)[OF assms, of cfg now tid] Pair by simp
  show ?thesis using Pair inv'
    by (cases r) (simp_all add: updateStateFromFile_def Let_def updateState_inv benign_simps)
qed

lemma comment_keeps_modes:
  "i < length h \<Longrightarrow> map h_mode (h[i := (h ! i)\<lparr>h_comment := c\<rparr>]) = map h_mode h"
  by (simp add: map_update list_update_same_conv)

lemma comment_inv:
  assumes "phase_inv s" and "i < length (modeHistory s)"
  shows "phase_inv (s\<lparr>modeHistory := (modeHistory s)[i := (modeHistory s ! i)\<lparr>h_comment := c\<rparr>]\<rparr>)"
proof -
  let ?h = "modeHistory s" and ?h' = "(modeHistory s)[i := (modeHistory s ! i)\<lparr>h_comment := c\<rparr>]"
  have ne: "?h \<noteq> []" "?h' \<noteq> []" using assms by (auto simp: phase_inv_def)
  have "h_mode (last ?h') = last (map h_mode ?h')" using ne(2) by (simp add: last_map)
  also have "\<dots> = last (map h_mode ?h)" using assms(2) by (simp only: comment_keeps_modes)
  also have "\<dots> = h_mode (last ?h)" using ne(1) by (simp add: last_map)
  finally show ?thesis using assms(1) ne by (simp add: phase_inv_def)
qed

lemma addCommentToHistory_inv:
  assumes "store_inv st" shows "store_inv (snd (addCommentToHistory cfg now tid i c st))"
proof (cases "getState cfg now tid st")
  case (Pair r st')
  have inv': "store_inv st'" using getState_inv(1)[OF assms, of cfg now tid] Pair by simp
  show ?thesis
  proof (cases r)
    case (Inl e)
    with Pair inv' show ?thesis by (simp add: addCommentToHistory_def)
  next
    case (Inr s)
    then have "phase_inv s" using getState_inv(2)[OF assms, of cfg now tid s] Pair by simp
    then show ?thesis using Pair Inr inv'
      by (auto simp: addCommentToHistory_def Let_def saveState_def intro!: store_inv_upd comment_inv)
  qed
qed

lemma commit_switch_inv:
  assumes "store_inv st" shows "store_inv (snd (commit_switch eng now m opts s st))"
  using updateModeHistory_inv[OF assms, of "e_cfg eng" now "o_taskId opts" m "o_switch_note opts"]
  by (auto simp: commit_switch_def Let_def assms split: option.splits prod.splits sum.splits)

lemma switchMode_inv:
  assumes "store_inv st" shows "store_inv (snd (switchMode eng now m opts st))"
proof (cases "getState (e_cfg eng) now (o_taskId opts) st")
  case (Pair r st')
  have inv': "store_inv st'" using getState_inv(1)[OF assms, of "e_cfg eng" now "o_taskId opts"] Pair by simp
  show ?thesis using Pair inv' assms
    by (cases r) (auto simp: switchMode_def Let_def commit_switch_inv split: option.splits)
qed

lemma reachable_inv: "reachable st \<Longrightarrow> store_inv st"
proof (induction rule: reachable.induct)
  case init
  show ?case by (simp add: store_inv_def)
next
  case (created st cfg now tid options)
  then show ?case using createState_result[of cfg now tid options st]
    by (auto simp: store_inv_def split: if_splits)
next
  case (deleted st tid)
  then show ?case by (simp add: store_inv_def deleteState_def)
qed (simp_all add: getState_inv(1) updateModeHistory_inv switchMode_inv updateChecklistItem_inv
      updateNote_inv addArtifact_inv updateStateFromFile_inv addCommentToHistory_inv)

text \<open>
  Claim C1. In every state of a reachable store (a store produced from the empty state
  directory by any sequence of createState, getState, updateModeHistory, switchMode,
  checklist, note and artifact updates, imports from the task file, history annotations
  and deletions) the history is not empty and the current mode is the mode of its last
  entry.
\<close>

theorem current_phase_is_last_history_phase:
  assumes "reachable st" and "st tid = Some s"
  shows "modeHistory s \<noteq> [] \<and> currentMode s = h_mode (last (modeHistory s))"
  using reachable_inv[OF assms(1)] assms(2) by (auto simp: store_inv_def phase_inv_def)

lemma demo_created:
  "createState DEFAULT_CONFIG 0 ''T1'' no_options Map.empty = (Inr demo_state, demo_store)"
  by (simp add: createState_def demo_state_def demo_store_def no_options_def saveState_def Let_def
      DEFAULT_CONFIG_def stateFileName_def)

theorem current_phase_is_last_history_phase_witness:
  "reachable demo_store \<and> demo_store ''T1'' = Some demo_state \<and> modeHistory demo_state \<noteq> []
   \<and> currentMode demo_state = h_mode (last (modeHistory demo_state))"
proof -
  have r: "reachable demo_store"
    using reachable.created[OF reachable.init, of DEFAULT_CONFIG 0 "''T1''" no_options]
    by (simp add: demo_created)
  have g: "demo_store ''T1'' = Some demo_state" by (simp add: demo_store_def)
  show ?thesis using r g current_phase_is_last_history_phase[OF r g] by simp
qed

subsection \<open>Switching to the current mode\<close>

lemma getState_present: "st tid = Some s \<Longrightarrow> getState cfg now tid st = (Inr s, st)"
  by (simp add: getState_def)

text \<open>
  Claim C4. When a task id is given and the stored state of the task is already in the
  requested mode, switchMode returns the success object holding that very state and leaves
  the state directory as it was: no history entry is appended, and the result does not
  depend on the registered rules or hooks (the equation holds for every engine), so none
  of them is consulted.
\<close>

theorem switchMode_same_mode_noop:
  assumes "o_taskId opts \<noteq> []" and "st (o_taskId opts) = Some s" and "currentMode s = m"
  shows "switchMode eng now m opts st = (AlreadyInMode s, st)
         \<and> success (fst (switchMode eng now m opts st))"
  using assms by (simp add: switchMode_def getState_present)

theorem switchMode_same_mode_noop_witness:
  "switchMode demo_engine 1000 ''research'' (switch_defaults ''T1'') demo_store
     = (AlreadyInMode demo_state, demo_store)"
  using switchMode_same_mode_noop[of "switch_defaults ''T1''" demo_store demo_state "''research''"
      demo_engine 1000]
  by (simp add: switch_defaults_def demo_store_def demo_state_def)

subsection \<open>Progress of a mode with an empty checklist\<close>

lemma bare_created:
  "createState bare_config 0 ''T3'' no_options Map.empty = (Inr bare_state, [''T3'' \<mapsto> bare_state])"
  by (simp add: createState_def bare_state_def bare_config_def no_options_def saveState_def
      new_item_def Let_def stateFileName_def)

lemma created_checklist:
  assumes "createState cfg now tid options st = (Inr s, st')"
    and "map_of (modes cfg) m = Some mc"
  shows "checklistProgress s m = Some (map new_item (checklistItems mc))"
proof -
  have g: "map_of ms m = Some mc \<Longrightarrow>
      map_of (map (\<lambda>(m, mc). (m, map new_item (checklistItems mc))) ms) m
          = Some (map new_item (checklistItems mc))" for ms :: "(mode \<times> mode_config) list"
    by (induction ms) (auto split: if_splits)
  have "map_of (map (\<lambda>(m, mc). (m, map new_item (checklistItems mc))) (modes cfg)) m
          = Some (map new_item (checklistItems mc))"
    using g[OF assms(2)] .
  then show ?thesis using assms(1)
    by (auto simp: createState_def Let_def saveState_def split: if_splits)
qed

text \<open>
  Claim C10 (as amended). For a mode whose checklist in the stored state of the task is
  empty, getModeProgress reports no items, percentage 0 and isComplete false, and when
  that mode is the current one getNextRecommendedMode recommends staying in it, with the
  reason that the mode is not complete. The state createState writes has an empty
  checklist for every mode whose configured checklist is empty. For a mode the stored
  state has no checklist for, getModeProgress fails.
\<close>

theorem progress_empty_checklist:
  assumes "st tid = Some s" and "checklistProgress s m = Some []"
  shows "getModeProgress cfg now tid m st =
           (Inr \<lparr>pr_mode = m, totalItems = 0, completedItems = 0, percentage = 0,
                  isComplete = False\<rparr>, st)
         \<and> (currentMode s = m \<longrightarrow>
              getNextRecommendedMode cfg now tid st =
                (Inr \<lparr>rec_mode = OneMode m, rec_reason = Incomplete m 0,
                       primaryRecommendation = None\<rparr>, st))
         \<and> (createState cfg0 now0 tid0 options st0 = (Inr s0, st1)
              \<and> map_of (modes cfg0) m0 = Some mc \<and> checklistItems mc = [] \<longrightarrow>
              checklistProgress s0 m0 = Some [])
         \<and> (checklistProgress s m1 = None \<longrightarrow>
              getModeProgress cfg now tid m1 st =
                (Inl (Failed ''getModeProgress'' (ModeNotFound m1)), st))"
proof -
  have p1: "getModeProgress cfg now tid m st =
           (Inr \<lparr>pr_mode = m, totalItems = 0, completedItems = 0, percentage = 0,
                  isComplete = False\<rparr>, st)"
    using assms by (simp add: getModeProgress_def getState_present)
  have p2: "currentMode s = m \<longrightarrow>
              getNextRecommendedMode cfg now tid st =
                (Inr \<lparr>rec_mode = OneMode m, rec_reason = Incomplete m 0,
                       primaryRecommendation = None\<rparr>, st)"
    using assms by (simp add: getModeProgress_def getNextRecommendedMode_def getState_present)
  have p3: "createState cfg0 now0 tid0 options st0 = (Inr s0, st1)
              \<and> map_of (modes cfg0) m0 = Some mc \<and> checklistItems mc = [] \<longrightarrow>
              checklistProgress s0 m0 = Some []"
    using created_checklist[of cfg0 now0 tid0 options st0 s0 st1 m0 mc] by auto
  have p4: "checklistProgress s m1 = None \<longrightarrow>
              getModeProgress cfg now tid m1 st =
                (Inl (Failed ''getModeProgress'' (ModeNotFound m1)), st)"
    using assms(1) by (simp add: getModeProgress_def getState_present)
  show ?thesis using p1 p2 p3 p4 by blast
qed

theorem progress_empty_checklist_witness:
  "getModeProgress bare_config 5 ''T3'' ''triage'' [''T3'' \<mapsto> bare_state] =
     (Inr \<lparr>pr_mode = ''triage'', totalItems = 0, completedItems = 0, percentage = 0,
            isComplete = False\<rparr>, [''T3'' \<mapsto> bare_state])
   \<and> getNextRecommendedMode bare_config 5 ''T3'' [''T3'' \<mapsto> bare_state] =
     (Inr \<lparr>rec_mode = OneMode ''triage'', rec_reason = Incomplete ''triage'' 0,
            primaryRecommendation = None\<rparr>, [''T3'' \<mapsto> bare_state])
   \<and> checklistProgress bare_state ''triage'' = Some []
   \<and> getModeProgress bare_config 5 ''T3'' ''research'' [''T3'' \<mapsto> bare_state] =
     (Inl (Failed ''getModeProgress'' (ModeNotFound ''research'')), [''T3'' \<mapsto> bare_state])"
  using progress_empty_checklist[where st = "[''T3'' \<mapsto> bare_state]" and tid = "''T3''"
      and s = bare_state and m = "''triage''" and cfg = bare_config and now = 5
      and ?cfg0.0 = bare_config and ?now0.0 = 0 and ?tid0.0 = "''T3''" and options = no_options
      and ?st0.0 = Map.empty and ?s0.0 = bare_state and ?st1.0 = "[''T3'' \<mapsto> bare_state]"
      and ?m0.0 = "''triage''" and mc = "\<lparr>nextModes = [''research''], checklistItems = []\<rparr>"
      and ?m1.0 = "''research''"]
    bare_created
  by (simp add: bare_state_def bare_config_def)

text \<open>
  The stored checklist decides, not the configured one: after updateStateFromFile has
  imported a completed item for a mode whose configured checklist is empty, the mode is
  reported complete and the next mode is recommended.
\<close>

theorem progress_empty_checklist_counterexample:
  "map_of (modes bare_config) ''triage'' = Some \<lparr>nextModes = [''research''], checklistItems = []\<rparr>
   \<and> createState bare_config 0 ''T3'' no_options Map.empty
       = (Inr bare_state, [''T3'' \<mapsto> bare_state])
   \<and> updateStateFromFile bare_config 1 ''T3'' ''triage''
        (Some [\<lparr>item_text = ''imported item'', completed = True\<rparr>]) None [''T3'' \<mapsto> bare_state]
       = (Inr imported_state, [''T3'' \<mapsto> imported_state])
   \<and> getModeProgress bare_config 2 ''T3'' ''triage'' [''T3'' \<mapsto> imported_state]
       = (Inr \<lparr>pr_mode = ''triage'', totalItems = 1, completedItems = 1, percentage = 100,
                isComplete = True\<rparr>, [''T3'' \<mapsto> imported_state])
   \<and> getNextRecommendedMode bare_config 2 ''T3'' [''T3'' \<mapsto> imported_state]
       = (Inr \<lparr>rec_mode = OneMode ''research'', rec_reason = SingleNext ''triage'',
                primaryRecommendation = None\<rparr>, [''T3'' \<mapsto> imported_state])"
proof -
  have cur: "currentMode imported_state = ''triage''"
    and chk: "checklistProgress imported_state ''triage''
        = Some [\<lparr>item_text = ''imported item'', completed = True\<rparr>]"
    by (simp_all add: imported_state_def bare_state_def)
  have w: "writable bare_config ''T3''" by (simp add: bare_config_def stateFileName_def)
  have a: "map_of (modes bare_config) ''triage'' = Some \<lparr>nextModes = [''research''], checklistItems = []\<rparr>"
    by (simp add: bare_config_def)
  have b: "updateStateFromFile bare_config 1 ''T3'' ''triage''
        (Some [\<lparr>item_text = ''imported item'', completed = True\<rparr>]) None [''T3'' \<mapsto> bare_state]
       = (Inr imported_state, [''T3'' \<mapsto> imported_state])"
    by (simp add: updateStateFromFile_def updateState_def getState_def saveState_def w Let_def
        apply_updates_def no_updates_def imported_state_def bare_state_def)
  have c: "getModeProgress bare_config 2 ''T3'' ''triage'' [''T3'' \<mapsto> imported_state]
       = (Inr \<lparr>pr_mode = ''triage'', totalItems = 1, completedItems = 1, percentage = 100,
                isComplete = True\<rparr>, [''T3'' \<mapsto> imported_state])"
    by (simp add: getModeProgress_def getState_def chk Let_def)
  have d: "getNextRecommendedMode bare_config 2 ''T3'' [''T3'' \<mapsto> imported_state]
       = (Inr \<lparr>rec_mode = OneMode ''research'', rec_reason = SingleNext ''triage'',
                primaryRecommendation = None\<rparr>, [''T3'' \<mapsto> imported_state])"
    by (simp add: getNextRecommendedMode_def getState_def c cur Let_def nextModeOptions_def a)
  show ?thesis using a bare_created b c d by simp
qed

subsection \<open>The validation report\<close>

lemma foldl_tally_valid:
  "fst (foldl (tally iw) (v, es, ws) rs) =
     (v \<and> \<not> (\<exists>r \<in> set rs. \<not> isValid r \<and> (severity r = Some ''warning'' \<longrightarrow> iw)))"
  by (induction rs arbitrary: v es ws) (auto simp: tally_def)

lemma foldl_tally_errors:
  "fst (snd (foldl (tally iw) (v, es, ws) rs)) =
     es @ filter (\<lambda>r. \<not> isValid r \<and> severity r \<noteq> Some ''warning'') rs"
  by (induction rs arbitrary: v es ws) (auto simp: tally_def)

lemma foldl_tally_warnings:
  "snd (snd (foldl (tally iw) (v, es, ws) rs)) =
     ws @ filter (\<lambda>r. \<not> isValid r \<and> severity r = Some ''warning'') rs"
  by (induction rs arbitrary: v es ws) (auto simp: tally_def)

lemma aggregate_isValid:
  "v_isValid (aggregate iw rs) =
     (\<not> (\<exists>r \<in> set rs. \<not> isValid r \<and> (severity r = Some ''warning'' \<longrightarrow> iw)))"
  using foldl_tally_valid[of iw True "[]" "[]" rs]
  by (auto simp add: aggregate_def split: prod.splits)

lemma aggregate_errors:
  "v_errors (aggregate iw rs) = filter (\<lambda>r. \<not> isValid r \<and> severity r \<noteq> Some ''warning'') rs"
  using foldl_tally_errors[of iw True "[]" "[]" rs]
  by (auto simp add: aggregate_def split: prod.splits)

lemma aggregate_warnings:
  "v_warnings (aggregate iw rs) = filter (\<lambda>r. \<not> isValid r \<and> severity r = Some ''warning'') rs"
  using foldl_tally_warnings[of iw True "[]" "[]" rs]
  by (auto simp add: aggregate_def split: prod.splits)

lemma aggregate_success: "v_success (aggregate iw rs)"
  by (simp add: aggregate_def split: prod.splits)


lemma those_Some_iff: "(those xs = Some ys) = (xs = map Some ys)"
  by (induction xs arbitrary: ys) (auto split: option.splits)

lemma those_None_iff: "(those xs = None) = (None \<in> set xs)"
  by (induction xs) (auto split: option.splits)

lemma those_all_Some:
  assumes "\<forall>x \<in> set xs. f x \<noteq> None"
  shows "those (map f xs) = Some (map (the \<circ> f) xs)"
  using assms by (induction xs) auto

lemma validate_completed:
  assumes "\<forall>r \<in> set (r_default reg @ r_custom reg). run_rule f t ctx st now r \<noteq> None"
  shows "validateTransition reg f t ctx iw st now =
           aggregate iw (map (the \<circ> run_rule f t ctx st now) (r_default reg @ r_custom reg))"
  using those_all_Some[OF assms] by (simp add: validateTransition_def Let_def)

lemma validate_rejected:
  assumes "r \<in> set (r_default reg @ r_custom reg)" and "run_rule f t ctx st now r = None"
  shows "validateTransition reg f t ctx iw st now = validation_error"
proof -
  have "None \<in> set (map (run_rule f t ctx st now) (r_default reg @ r_custom reg))"
    using assms by (metis image_eqI set_map)
  then have "those (map (run_rule f t ctx st now) (r_default reg @ r_custom reg)) = None"
    by (simp only: those_None_iff)
  then show ?thesis by (simp add: validateTransition_def Let_def)
qed

lemma validate_success_iff:
  "v_success (validateTransition reg f t ctx iw st now) =
     (\<forall>r \<in> set (r_default reg @ r_custom reg). run_rule f t ctx st now r \<noteq> None)"
proof (cases "\<forall>r \<in> set (r_default reg @ r_custom reg). run_rule f t ctx st now r \<noteq> None")
  case True
  then have "validateTransition reg f t ctx iw st now =
           aggregate iw (map (the \<circ> run_rule f t ctx st now) (r_default reg @ r_custom reg))"
    by (rule validate_completed)
  with True show ?thesis by (simp add: aggregate_success)
next
  case False
  then obtain r where "r \<in> set (r_default reg @ r_custom reg)" "run_rule f t ctx st now r = None"
    by blast
  then have "validateTransition reg f t ctx iw st now = validation_error"
    by (rule validate_rejected)
  with False show ?thesis by (simp add: validation_error_def)
qed



lemma demo_get: "getState DEFAULT_CONFIG now ''T1'' demo_store = (Inr demo_state, demo_store)"
  by (simp add: getState_def demo_store_def)

lemma demo_research_list:
  "checklistProgress demo_state ''research'' = Some (map new_item
     [''research question defined'', ''information collected'',
      ''data analysed'', ''key problems identified'', ''findings recorded''])"
  by (simp add: demo_state_def DEFAULT_CONFIG_def)

lemma demo_next_research: "nextModeOptions DEFAULT_CONFIG ''research'' = [''innovate'', ''plan'']"
  by (simp add: nextModeOptions_def DEFAULT_CONFIG_def)

lemma demo_history:
  "modeHistory demo_state =
     [\<lparr>h_mode = ''research'', h_timestamp = 0, h_note = init_note, h_comment = None\<rparr>]"
  by (simp add: demo_state_def)

lemma demo_run_checklist:
  "run_rule ''research'' t demo_context demo_store 1000 (checklistCompletionRule DEFAULT_CONFIG) =
    Some \<lparr>isValid = False, message = ChecklistInsufficient 0, recommendation = Some RecommendCompleteMore,
     severity = Some ''warning'', ruleId = ''checklist-completion'',
     ruleName = ''checklist completion rule'', thrown = None\<rparr>"
  by (simp add: run_rule_def checklistCompletionRule_def demo_get demo_context_def
      demo_research_list new_item_def Let_def)


lemma demo_run_dwell:
  "run_rule ''research'' t demo_context demo_store 1000 (minTimeSpentRule DEFAULT_CONFIG) =
    Some \<lparr>isValid = False, message = DwellTooShort 1000, recommendation = Some (RecommendDwell 300000),
     severity = Some ''warning'', ruleId = ''min-time-spent'',
     ruleName = ''minimum dwell time rule'', thrown = None\<rparr>"
  by (simp add: run_rule_def minTimeSpentRule_def demo_get demo_context_def demo_history
      minTimeThreshold_def Let_def)

lemma demo_rules:
  "r_default (e_rules demo_engine) @ r_custom (e_rules demo_engine) =
     [checklistCompletionRule DEFAULT_CONFIG, validTransitionRule DEFAULT_CONFIG,
      minTimeSpentRule DEFAULT_CONFIG]"
  by (simp add: demo_engine_def addDefaultRules_def no_rules_def)



subsection \<open>createState on a task that has a state\<close>




subsection \<open>The minimum dwell time rule\<close>

text \<open>
  Claim C6. The rule takes the first history entry of the source mode
  (\<^verbatim>\<open>modeHistory.find\<close>), not the most recent one: for a task that came back to the
  research mode one minute ago, and first entered it a day before, the rule passes,
  although one minute is less than the threshold of five minutes.
\<close>

theorem dwell_rule_reads_first_entry:
  "condition (minTimeSpentRule DEFAULT_CONFIG) ''research'' ''innovate''
      \<lparr>c_taskId = ''T1'', c_state = revisit_state\<rparr> [''T1'' \<mapsto> revisit_state] 86460000
     = Inr (passes DwellEnough)
   \<and> currentMode revisit_state = ''research''
   \<and> h_mode (last (modeHistory revisit_state)) = ''research''
   \<and> 86460000 - h_timestamp (last (modeHistory revisit_state)) = 60000
   \<and> 60000 < minTimeThreshold"
  by (simp add: minTimeSpentRule_def getState_def revisit_state_def demo_state_def
      minTimeThreshold_def Let_def)

subsection \<open>A rule that throws\<close>

lemma run_rule_thrown:
  "condition r f t ctx st now = Inl (ThrowValue e) \<Longrightarrow>
   run_rule f t ctx st now r =
     Some \<lparr>isValid = True, message = RuleThrew e, recommendation = None, severity = None,
      ruleId = r_id r, ruleName = r_name r, thrown = Some e\<rparr>"
  by (simp add: run_rule_def)

lemma run_rule_None_iff:
  "(run_rule f t ctx st now r = None) = (condition r f t ctx st now = Inl ThrowNullish)"
  by (simp add: run_rule_def split: sum.splits js_throw.splits)

lemma validate_isValid:
  assumes "\<forall>r \<in> set (r_default reg @ r_custom reg). run_rule f t ctx st now r \<noteq> None"
  shows "v_isValid (validateTransition reg f t ctx iw st now) =
     (\<not> (\<exists>r \<in> set (map (the \<circ> run_rule f t ctx st now) (r_default reg @ r_custom reg)).
            \<not> isValid r \<and> (severity r = Some ''warning'' \<longrightarrow> iw)))"
  by (simp only: validate_completed[OF assms] aggregate_isValid)

lemma validate_errors:
  assumes "\<forall>r \<in> set (r_default reg @ r_custom reg). run_rule f t ctx st now r \<noteq> None"
  shows "v_errors (validateTransition reg f t ctx iw st now) =
     filter (\<lambda>r. \<not> isValid r \<and> severity r \<noteq> Some ''warning'')
       (map (the \<circ> run_rule f t ctx st now) (r_default reg @ r_custom reg))"
  by (simp only: validate_completed[OF assms] aggregate_errors)

lemma validate_warnings:
  assumes "\<forall>r \<in> set (r_default reg @ r_custom reg). run_rule f t ctx st now r \<noteq> None"
  shows "v_warnings (validateTransition reg f t ctx iw st now) =
     filter (\<lambda>r. \<not> isValid r \<and> severity r = Some ''warning'')
       (map (the \<circ> run_rule f t ctx st now) (r_default reg @ r_custom reg))"
  by (simp only: validate_completed[OF assms] aggregate_warnings)

lemma gate_refuses: "validation_gate eng now m opts s st = Some r \<Longrightarrow> \<not> success r"
  by (auto simp: validation_gate_def Let_def split: if_splits)

lemma gate_none_iff:
  "(validation_gate eng now m opts s st = None) =
     (force opts
      \<or> (v_success (validateTransition (e_rules eng) (currentMode s) m
              \<lparr>c_taskId = o_taskId opts, c_state = s\<rparr> (\<not> ignoreWarnings opts) st now)
         \<and> v_isValid (validateTransition (e_rules eng) (currentMode s) m
              \<lparr>c_taskId = o_taskId opts, c_state = s\<rparr> (\<not> ignoreWarnings opts) st now))
      \<or> (v_errors (validateTransition (e_rules eng) (currentMode s) m
              \<lparr>c_taskId = o_taskId opts, c_state = s\<rparr> (\<not> ignoreWarnings opts) st now) = []
          \<and> (ignoreWarnings opts
              \<or> v_warnings (validateTransition (e_rules eng) (currentMode s) m
                   \<lparr>c_taskId = o_taskId opts, c_state = s\<rparr> (\<not> ignoreWarnings opts) st now) = [])))"
  unfolding validation_gate_def Let_def
  by (cases "force opts"; cases "ignoreWarnings opts") auto

lemma gate_depends:
  assumes "v_success (validateTransition (e_rules eng) (currentMode s) m
              \<lparr>c_taskId = o_taskId opts, c_state = s\<rparr> (\<not> ignoreWarnings opts) st now)
         = v_success (validateTransition (e_rules eng') (currentMode s) m
              \<lparr>c_taskId = o_taskId opts, c_state = s\<rparr> (\<not> ignoreWarnings opts) st now)"
    and "v_isValid (validateTransition (e_rules eng) (currentMode s) m
              \<lparr>c_taskId = o_taskId opts, c_state = s\<rparr> (\<not> ignoreWarnings opts) st now)
         = v_isValid (validateTransition (e_rules eng') (currentMode s) m
              \<lparr>c_taskId = o_taskId opts, c_state = s\<rparr> (\<not> ignoreWarnings opts) st now)"
    and "v_errors (validateTransition (e_rules eng) (currentMode s) m
              \<lparr>c_taskId = o_taskId opts, c_state = s\<rparr> (\<not> ignoreWarnings opts) st now)
         = v_errors (validateTransition (e_rules eng') (currentMode s) m
              \<lparr>c_taskId = o_taskId opts, c_state = s\<rparr> (\<not> ignoreWarnings opts) st now)"
    and "v_warnings (validateTransition (e_rules eng) (currentMode s) m
              \<lparr>c_taskId = o_taskId opts, c_state = s\<rparr> (\<not> ignoreWarnings opts) st now)
         = v_warnings (validateTransition (e_rules eng') (currentMode s) m
              \<lparr>c_taskId = o_taskId opts, c_state = s\<rparr> (\<not> ignoreWarnings opts) st now)"
  shows "(validation_gate eng now m opts s st = None) = (validation_gate eng' now m opts s st = None)"
  by (simp only: gate_none_iff assms)

lemma gate_skipped:
  assumes "r \<in> set (r_default (e_rules eng) @ r_custom (e_rules eng))"
    and "condition r (currentMode s) m \<lparr>c_taskId = o_taskId opts, c_state = s\<rparr> st now
           = Inl ThrowNullish"
  shows "validation_gate eng now m opts s st = None"
proof -
  have "run_rule (currentMode s) m \<lparr>c_taskId = o_taskId opts, c_state = s\<rparr> st now r = None"
    using assms(2) by (simp only: run_rule_None_iff)
  with assms(1) have "validateTransition (e_rules eng) (currentMode s) m
      \<lparr>c_taskId = o_taskId opts, c_state = s\<rparr> (\<not> ignoreWarnings opts) st now = validation_error"
    by (rule validate_rejected)
  then show ?thesis by (simp add: gate_none_iff validation_error_def)
qed

lemma commit_switch_rules:
  "commit_switch (eng\<lparr>e_rules := reg\<rparr>) now m opts s st = commit_switch eng now m opts s st"
  by (simp add: commit_switch_def Let_def split: option.splits prod.splits sum.splits)

lemma updateModeHistory_present:
  assumes "st tid = Some s" and "writable cfg tid"
  shows "updateModeHistory cfg now tid m note st =
           (Inr (entered now m note s), st(tid \<mapsto> entered now m note s))"
  using assms
  by (simp add: updateModeHistory_def updateState_def getState_def Let_def saveState_def
      apply_updates_def no_updates_def entered_def)

lemma commit_switch_present:
  assumes "st (o_taskId opts) = Some s"
  shows "commit_switch eng now m opts s st =
     (case runHooks (beforeModeSwitch (e_hooks eng)) (before_data opts m s) of
        Some e \<Rightarrow> (hook_failure e, st)
      | None \<Rightarrow>
          if writable (e_cfg eng) (o_taskId opts) then
            (case runHooks (afterModeSwitch (e_hooks eng)) (after_data now opts m s) of
               Some e \<Rightarrow> (hook_failure e,
                          st(o_taskId opts \<mapsto> entered now m (o_switch_note opts) s))
             | None \<Rightarrow> (Switched (entered now m (o_switch_note opts) s) (currentMode s),
                        st(o_taskId opts \<mapsto> entered now m (o_switch_note opts) s)))
          else (SwitchFailed (Failed ''updateModeHistory''
                   (Failed ''updateState'' (WriteFailed (o_taskId opts)))), st))"
proof (cases "writable (e_cfg eng) (o_taskId opts)")
  case True
  then show ?thesis using assms
    by (simp add: commit_switch_def Let_def updateModeHistory_present before_data_def
        after_data_def split: option.splits)
next
  case False
  then have "updateModeHistory (e_cfg eng) now (o_taskId opts) m (o_switch_note opts) st =
      (Inl (Failed ''updateState'' (WriteFailed (o_taskId opts))), st)"
    using assms
    by (simp add: updateModeHistory_def updateState_def getState_def Let_def saveState_def)
  with False show ?thesis
    by (simp add: commit_switch_def Let_def before_data_def split: option.splits)
qed

lemma switchMode_passed_gate:
  assumes "o_taskId opts \<noteq> []" and "getState (e_cfg eng) now (o_taskId opts) st = (Inr s, st')"
    and "currentMode s \<noteq> m" and "validation_gate eng now m opts s st' = None"
  shows "switchMode eng now m opts st = commit_switch eng now m opts s st'"
  using assms by (simp add: switchMode_def Let_def)

lemma switchMode_refused:
  assumes "o_taskId opts \<noteq> []" and "getState (e_cfg eng) now (o_taskId opts) st = (Inr s, st')"
    and "currentMode s \<noteq> m" and "validation_gate eng now m opts s st' = Some r"
  shows "switchMode eng now m opts st = (r, st')"
  using assms by (simp add: switchMode_def Let_def)

lemma runHooks_None: "(runHooks hs d = None) = (\<forall>h \<in> set hs. h d = None)"
proof (cases "List.find (\<lambda>r. r \<noteq> None) (map (\<lambda>callback. callback d) hs)")
  case None
  then have "\<forall>h \<in> set hs. h d = None" by (auto simp: find_None_iff)
  with None show ?thesis by (simp add: runHooks_def)
next
  case (Some r)
  then have "r \<in> set (map (\<lambda>callback. callback d) hs)" "r \<noteq> None"
    by (auto simp: find_Some_iff)
  then have "hs \<noteq> []" "\<exists>h \<in> set hs. h d \<noteq> None" "r \<noteq> None" by auto
  with Some show ?thesis by (auto simp: runHooks_def)
qed

lemma runHooks_Some: "runHooks hs d = Some e \<Longrightarrow> \<exists>h \<in> set hs. h d = Some e"
proof -
  assume a: "runHooks hs d = Some e"
  then obtain r where "List.find (\<lambda>r. r \<noteq> None) (map (\<lambda>callback. callback d) hs) = Some r" "r = Some e"
    by (auto simp: runHooks_def split: if_splits option.splits)
  then have "Some e \<in> set (map (\<lambda>callback. callback d) hs)"
    by (auto simp: find_Some_iff)
  then show ?thesis by auto
qed

lemma demo_current: "currentMode demo_state = ''research''"
  by (simp add: demo_state_def)

lemma demo_present: "demo_store ''T1'' = Some demo_state"
  by (simp add: demo_store_def)

lemma demo_default_rules:
  "r_default (e_rules demo_engine) =
     [checklistCompletionRule (e_cfg demo_engine), validTransitionRule (e_cfg demo_engine),
      minTimeSpentRule (e_cfg demo_engine)]"
  by (simp add: demo_engine_def addDefaultRules_def)

lemma demo_cfg: "e_cfg demo_engine = DEFAULT_CONFIG"
  by (simp add: demo_engine_def)

lemma demo_writable: "writable DEFAULT_CONFIG ''T1''"
  by (simp add: DEFAULT_CONFIG_def stateFileName_def)

lemma demo_no_hooks:
  "beforeModeSwitch (e_hooks demo_engine) = []" "afterModeSwitch (e_hooks demo_engine) = []"
  by (simp_all add: demo_engine_def no_hooks_def)

lemma default_rules_return:
  "run_rule f t ctx st now (checklistCompletionRule cfg) \<noteq> None"
  "run_rule f t ctx st now (validTransitionRule cfg) \<noteq> None"
  "run_rule f t ctx st now (minTimeSpentRule cfg) \<noteq> None"
  by (simp_all add: run_rule_def checklistCompletionRule_def validTransitionRule_def
      minTimeSpentRule_def Let_def split: sum.splits option.splits)

lemma checklist_rule_warns:
  "isValid (the (run_rule f t ctx st now (checklistCompletionRule cfg)))
   \<or> severity (the (run_rule f t ctx st now (checklistCompletionRule cfg))) = Some ''warning''"
  by (simp add: run_rule_def checklistCompletionRule_def passes_def Let_def
      split: sum.splits option.splits)

lemma path_rule_result:
  "run_rule f t ctx st now (validTransitionRule cfg) =
     Some (if nextModeOptions cfg f = [] then
        \<lparr>isValid = True, message = NoRestriction, recommendation = None, severity = None,
         ruleId = ''valid-transition-path'', ruleName = ''valid transition path rule'', thrown = None\<rparr>
      else if t \<notin> set (nextModeOptions cfg f) then
        \<lparr>isValid = False, message = InvalidPath f t,
         recommendation = Some (ValidOptions (nextModeOptions cfg f)), severity = Some ''error'',
         ruleId = ''valid-transition-path'', ruleName = ''valid transition path rule'', thrown = None\<rparr>
      else
        \<lparr>isValid = True, message = PathValid, recommendation = None, severity = None,
         ruleId = ''valid-transition-path'', ruleName = ''valid transition path rule'', thrown = None\<rparr>)"
  by (simp add: run_rule_def validTransitionRule_def passes_def Let_def)

lemma demo_all_return:
  "\<forall>r \<in> set (r_default (e_rules demo_engine) @ r_custom (e_rules demo_engine)).
      run_rule f t ctx st now r \<noteq> None"
  unfolding demo_rules using default_rules_return[of f t ctx st now DEFAULT_CONFIG] by auto

lemma demo_gate_plan: "validation_gate demo_engine 1000 ''plan'' (switch_defaults ''T1'') demo_state demo_store = None"
proof -
  have ctx: "\<lparr>c_taskId = ''T1'', c_state = demo_state\<rparr> = demo_context" by (simp add: demo_context_def)
  have "v_isValid (validateTransition (e_rules demo_engine) ''research'' ''plan''
          demo_context False demo_store 1000)"
    unfolding validate_isValid[OF demo_all_return] demo_rules
    by (simp add: demo_run_checklist demo_run_dwell path_rule_result demo_next_research)
  moreover have "v_success (validateTransition (e_rules demo_engine) ''research'' ''plan''
          demo_context False demo_store 1000)"
    unfolding validate_success_iff by (rule demo_all_return)
  ultimately show ?thesis
    by (simp add: gate_none_iff switch_defaults_def demo_current ctx)
qed

lemma demo_switch_plan:
  "switchMode demo_engine 1000 ''plan'' (switch_defaults ''T1'') demo_store =
     (Switched (entered 1000 ''plan'' [] demo_state) ''research'',
      demo_store(''T1'' \<mapsto> entered 1000 ''plan'' [] demo_state))"
proof -
  have a: "o_taskId (switch_defaults ''T1'') \<noteq> []" by (simp add: switch_defaults_def)
  have b: "demo_store (o_taskId (switch_defaults ''T1'')) = Some demo_state"
    by (simp add: switch_defaults_def demo_present)
  have b': "getState (e_cfg demo_engine) 1000 (o_taskId (switch_defaults ''T1'')) demo_store
      = (Inr demo_state, demo_store)"
    using b by (rule getState_present)
  have c: "currentMode demo_state \<noteq> ''plan''" by (simp add: demo_current)
  have "switchMode demo_engine 1000 ''plan'' (switch_defaults ''T1'') demo_store
      = commit_switch demo_engine 1000 ''plan'' (switch_defaults ''T1'') demo_state demo_store"
    using a b' c demo_gate_plan by (rule switchMode_passed_gate)
  then show ?thesis using b
    by (simp add: commit_switch_present runHooks_def demo_no_hooks demo_current switch_defaults_def
        demo_cfg demo_writable)
qed

lemma thrown_rule_dropped:
  assumes thr: "condition r f t ctx st now = Inl (ThrowValue e)"
  shows "v_success (validateTransition (reg\<lparr>r_custom := cs1 @ r # cs2\<rparr>) f t ctx iw st now)
         = v_success (validateTransition (reg\<lparr>r_custom := cs1 @ cs2\<rparr>) f t ctx iw st now)"
    and "v_isValid (validateTransition (reg\<lparr>r_custom := cs1 @ r # cs2\<rparr>) f t ctx iw st now)
         = v_isValid (validateTransition (reg\<lparr>r_custom := cs1 @ cs2\<rparr>) f t ctx iw st now)"
    and "v_errors (validateTransition (reg\<lparr>r_custom := cs1 @ r # cs2\<rparr>) f t ctx iw st now)
         = v_errors (validateTransition (reg\<lparr>r_custom := cs1 @ cs2\<rparr>) f t ctx iw st now)"
    and "v_warnings (validateTransition (reg\<lparr>r_custom := cs1 @ r # cs2\<rparr>) f t ctx iw st now)
         = v_warnings (validateTransition (reg\<lparr>r_custom := cs1 @ cs2\<rparr>) f t ctx iw st now)"
proof -
  let ?R = "reg\<lparr>r_custom := cs1 @ r # cs2\<rparr>"
  let ?R' = "reg\<lparr>r_custom := cs1 @ cs2\<rparr>"
  let ?V = "validateTransition ?R f t ctx iw st now"
  let ?V' = "validateTransition ?R' f t ctx iw st now"
  have rr: "run_rule f t ctx st now r =
     Some \<lparr>isValid = True, message = RuleThrew e, recommendation = None, severity = None,
      ruleId = r_id r, ruleName = r_name r, thrown = Some e\<rparr>"
    using thr by (rule run_rule_thrown)
  have ok: "isValid (the (run_rule f t ctx st now r))" by (simp add: rr)
  have all: "v_success ?V = v_success ?V' \<and> v_isValid ?V = v_isValid ?V'
      \<and> v_errors ?V = v_errors ?V' \<and> v_warnings ?V = v_warnings ?V'"
  proof (cases "\<forall>x \<in> set (r_default ?R' @ r_custom ?R'). run_rule f t ctx st now x \<noteq> None")
    case True
    then have a: "\<forall>x \<in> set (r_default ?R @ r_custom ?R). run_rule f t ctx st now x \<noteq> None"
      using rr by auto
    have s: "v_success ?V = v_success ?V'"
      unfolding validate_success_iff using True a by blast
    have v: "v_isValid ?V = v_isValid ?V'"
      unfolding validate_isValid[OF True] validate_isValid[OF a] using ok by auto
    have er: "v_errors ?V = v_errors ?V'"
      unfolding validate_errors[OF True] validate_errors[OF a] using ok by simp
    have wa: "v_warnings ?V = v_warnings ?V'"
      unfolding validate_warnings[OF True] validate_warnings[OF a] using ok by simp
    show ?thesis using s v er wa by simp
  next
    case False
    then obtain x where x: "x \<in> set (r_default ?R' @ r_custom ?R')"
        "run_rule f t ctx st now x = None"
      by blast
    then have x': "x \<in> set (r_default ?R @ r_custom ?R)" by auto
    have "?V' = validation_error" using x by (rule validate_rejected)
    moreover have "?V = validation_error" using x' x(2) by (rule validate_rejected)
    ultimately show ?thesis by simp
  qed
  show "v_success ?V = v_success ?V'" "v_isValid ?V = v_isValid ?V'"
    "v_errors ?V = v_errors ?V'" "v_warnings ?V = v_warnings ?V'"
    using all by simp_all
qed

text \<open>
  Claim C2. When the condition of a registered custom rule throws an Error (any value
  other than \<^verbatim>\<open>undefined\<close> or \<^verbatim>\<open>null\<close>) for a transition, the rule's entry has
  isValid = true and a message quoting the exception; success, validity, errors and
  warnings of the report are those of the registry without the rule, and switchMode
  succeeds or fails, and leaves the state directory, exactly as it does without the rule.
  When the condition rejects with \<^verbatim>\<open>undefined\<close> or \<^verbatim>\<open>null\<close>, the rule has no entry:
  the validation as a whole fails (success and isValid false, no results), and the
  validation step of switchMode lets every transition through.
\<close>

theorem throwing_rule_fail_open:
  "(condition r f t ctx st now = Inl (ThrowValue e) \<longrightarrow>
      run_rule f t ctx st now r =
        Some \<lparr>isValid = True, message = RuleThrew e, recommendation = None, severity = None,
              ruleId = r_id r, ruleName = r_name r, thrown = Some e\<rparr>
      \<and> v_success (validateTransition (reg\<lparr>r_custom := cs1 @ r # cs2\<rparr>) f t ctx iw st now)
        = v_success (validateTransition (reg\<lparr>r_custom := cs1 @ cs2\<rparr>) f t ctx iw st now)
      \<and> v_isValid (validateTransition (reg\<lparr>r_custom := cs1 @ r # cs2\<rparr>) f t ctx iw st now)
        = v_isValid (validateTransition (reg\<lparr>r_custom := cs1 @ cs2\<rparr>) f t ctx iw st now)
      \<and> v_errors (validateTransition (reg\<lparr>r_custom := cs1 @ r # cs2\<rparr>) f t ctx iw st now)
        = v_errors (validateTransition (reg\<lparr>r_custom := cs1 @ cs2\<rparr>) f t ctx iw st now)
      \<and> v_warnings (validateTransition (reg\<lparr>r_custom := cs1 @ r # cs2\<rparr>) f t ctx iw st now)
        = v_warnings (validateTransition (reg\<lparr>r_custom := cs1 @ cs2\<rparr>) f t ctx iw st now))
   \<and> (condition r f t ctx st now = Inl (ThrowValue e)
       \<and> getState (e_cfg eng) now (o_taskId opts) st0 = (Inr s, st)
       \<and> f = currentMode s \<and> ctx = \<lparr>c_taskId = o_taskId opts, c_state = s\<rparr>
       \<and> e_rules eng = reg\<lparr>r_custom := cs1 @ r # cs2\<rparr> \<longrightarrow>
         success (fst (switchMode eng now t opts st0))
           = success (fst (switchMode (eng\<lparr>e_rules := reg\<lparr>r_custom := cs1 @ cs2\<rparr>\<rparr>) now t opts st0))
         \<and> snd (switchMode eng now t opts st0)
           = snd (switchMode (eng\<lparr>e_rules := reg\<lparr>r_custom := cs1 @ cs2\<rparr>\<rparr>) now t opts st0))
   \<and> (condition r f t ctx st now = Inl ThrowNullish \<longrightarrow>
        run_rule f t ctx st now r = None
        \<and> validateTransition (reg\<lparr>r_custom := cs1 @ r # cs2\<rparr>) f t ctx iw st now = validation_error
        \<and> (f = currentMode s \<and> ctx = \<lparr>c_taskId = o_taskId opts, c_state = s\<rparr>
            \<and> e_rules eng = reg\<lparr>r_custom := cs1 @ r # cs2\<rparr> \<longrightarrow>
              validation_gate eng now t opts s st = None))"
proof -
  let ?R = "reg\<lparr>r_custom := cs1 @ r # cs2\<rparr>"
  let ?R' = "reg\<lparr>r_custom := cs1 @ cs2\<rparr>"
  let ?eng' = "eng\<lparr>e_rules := ?R'\<rparr>"
  have p1: "condition r f t ctx st now = Inl (ThrowValue e) \<longrightarrow>
      run_rule f t ctx st now r =
        Some \<lparr>isValid = True, message = RuleThrew e, recommendation = None, severity = None,
              ruleId = r_id r, ruleName = r_name r, thrown = Some e\<rparr>
      \<and> v_success (validateTransition ?R f t ctx iw st now)
        = v_success (validateTransition ?R' f t ctx iw st now)
      \<and> v_isValid (validateTransition ?R f t ctx iw st now)
        = v_isValid (validateTransition ?R' f t ctx iw st now)
      \<and> v_errors (validateTransition ?R f t ctx iw st now)
        = v_errors (validateTransition ?R' f t ctx iw st now)
      \<and> v_warnings (validateTransition ?R f t ctx iw st now)
        = v_warnings (validateTransition ?R' f t ctx iw st now)"
  proof
    assume thr: "condition r f t ctx st now = Inl (ThrowValue e)"
    show "run_rule f t ctx st now r =
        Some \<lparr>isValid = True, message = RuleThrew e, recommendation = None, severity = None,
              ruleId = r_id r, ruleName = r_name r, thrown = Some e\<rparr>
      \<and> v_success (validateTransition ?R f t ctx iw st now)
        = v_success (validateTransition ?R' f t ctx iw st now)
      \<and> v_isValid (validateTransition ?R f t ctx iw st now)
        = v_isValid (validateTransition ?R' f t ctx iw st now)
      \<and> v_errors (validateTransition ?R f t ctx iw st now)
        = v_errors (validateTransition ?R' f t ctx iw st now)
      \<and> v_warnings (validateTransition ?R f t ctx iw st now)
        = v_warnings (validateTransition ?R' f t ctx iw st now)"
      using run_rule_thrown[OF thr] thrown_rule_dropped[OF thr] by simp
  qed
  have p2: "success (fst (switchMode eng now t opts st0)) = success (fst (switchMode ?eng' now t opts st0))
         \<and> snd (switchMode eng now t opts st0) = snd (switchMode ?eng' now t opts st0)"
    if h: "condition r f t ctx st now = Inl (ThrowValue e)
       \<and> getState (e_cfg eng) now (o_taskId opts) st0 = (Inr s, st)
       \<and> f = currentMode s \<and> ctx = \<lparr>c_taskId = o_taskId opts, c_state = s\<rparr>
       \<and> e_rules eng = ?R"
  proof -
    have thr: "condition r (currentMode s) t \<lparr>c_taskId = o_taskId opts, c_state = s\<rparr> st now
        = Inl (ThrowValue e)"
      using h by (elim conjE) (simp only:)
    have gs: "getState (e_cfg eng) now (o_taskId opts) st0 = (Inr s, st)" using h by simp
    have reg: "e_rules eng = ?R" "e_rules ?eng' = ?R'" using h by simp_all
    have gate: "(validation_gate eng now t opts s st = None)
        = (validation_gate ?eng' now t opts s st = None)"
      by (rule gate_depends)
        (simp_all only: reg thrown_rule_dropped[OF thr])
    show ?thesis
    proof (cases "validation_gate eng now t opts s st")
      case None
      then have "validation_gate ?eng' now t opts s st = None" using gate by simp
      with None show ?thesis
        by (simp add: switchMode_def Let_def gs commit_switch_rules)
    next
      case (Some a)
      then obtain b where b: "validation_gate ?eng' now t opts s st = Some b" using gate by auto
      have "\<not> success a" "\<not> success b" using Some b gate_refuses by blast+
      with Some b show ?thesis
        by (simp add: switchMode_def Let_def gs)
    qed
  qed
  have p3: "condition r f t ctx st now = Inl ThrowNullish \<longrightarrow>
        run_rule f t ctx st now r = None
        \<and> validateTransition ?R f t ctx iw st now = validation_error
        \<and> (f = currentMode s \<and> ctx = \<lparr>c_taskId = o_taskId opts, c_state = s\<rparr>
            \<and> e_rules eng = ?R \<longrightarrow> validation_gate eng now t opts s st = None)"
  proof
    assume n: "condition r f t ctx st now = Inl ThrowNullish"
    have a: "run_rule f t ctx st now r = None" using n by (simp only: run_rule_None_iff)
    have m: "r \<in> set (r_default ?R @ r_custom ?R)" by simp
    have b: "validateTransition ?R f t ctx iw st now = validation_error"
      using m a by (rule validate_rejected)
    have c: "validation_gate eng now t opts s st = None"
      if h: "f = currentMode s \<and> ctx = \<lparr>c_taskId = o_taskId opts, c_state = s\<rparr> \<and> e_rules eng = ?R"
    proof (rule gate_skipped)
      show "r \<in> set (r_default (e_rules eng) @ r_custom (e_rules eng))" using h by simp
      show "condition r (currentMode s) t \<lparr>c_taskId = o_taskId opts, c_state = s\<rparr> st now
          = Inl ThrowNullish"
        using h n by (elim conjE) (simp only:)
    qed
    show "run_rule f t ctx st now r = None
        \<and> validateTransition ?R f t ctx iw st now = validation_error
        \<and> (f = currentMode s \<and> ctx = \<lparr>c_taskId = o_taskId opts, c_state = s\<rparr>
            \<and> e_rules eng = ?R \<longrightarrow> validation_gate eng now t opts s st = None)"
      using a b c by blast
  qed
  show ?thesis using p1 p2 p3 by blast
qed

lemma demo_plan_valid:
  "v_isValid (validateTransition (e_rules demo_engine) ''research'' ''plan''
       demo_context False demo_store 1000)"
  unfolding validate_isValid[OF demo_all_return] demo_rules
  by (simp add: demo_run_checklist demo_run_dwell path_rule_result demo_next_research)

theorem throwing_rule_fail_open_witness:
  "run_rule ''research'' ''plan'' demo_context demo_store 1000 throwing_rule =
      Some \<lparr>isValid = True, message = RuleThrew ''boom'', recommendation = None, severity = None,
       ruleId = ''broken'', ruleName = ''rule that throws'', thrown = Some ''boom''\<rparr>
   \<and> success (fst (switchMode broken_engine 1000 ''plan'' (switch_defaults ''T1'') demo_store))
   \<and> snd (switchMode broken_engine 1000 ''plan'' (switch_defaults ''T1'') demo_store)
       = demo_store(''T1'' \<mapsto> entered 1000 ''plan'' [] demo_state)
   \<and> run_rule ''research'' ''plan'' demo_context demo_store 1000 rejecting_rule = None
   \<and> validateTransition (e_rules rejecting_engine) ''research'' ''plan'' demo_context False
        demo_store 1000 = validation_error
   \<and> v_isValid (validateTransition (e_rules demo_engine) ''research'' ''plan'' demo_context False
        demo_store 1000)
   \<and> validation_gate rejecting_engine 1000 ''execute'' (switch_defaults ''T1'') demo_state
        demo_store = None"
proof -
  have thr: "condition throwing_rule ''research'' ''plan'' demo_context demo_store 1000
      = Inl (ThrowValue ''boom'')"
    by (simp add: throwing_rule_def)
  have rej: "condition rejecting_rule ''research'' t demo_context demo_store 1000
      = Inl ThrowNullish" for t
    by (simp add: rejecting_rule_def)
  have gs: "getState (e_cfg broken_engine) 1000 (o_taskId (switch_defaults ''T1'')) demo_store
      = (Inr demo_state, demo_store)"
    by (simp add: getState_def switch_defaults_def demo_present)
  have ctx: "demo_context = \<lparr>c_taskId = o_taskId (switch_defaults ''T1''), c_state = demo_state\<rparr>"
    by (simp add: demo_context_def switch_defaults_def)
  have cur: "''research'' = currentMode demo_state" by (simp add: demo_current)
  have reg: "e_rules broken_engine = (e_rules demo_engine)\<lparr>r_custom := [] @ throwing_rule # []\<rparr>"
    by (simp add: broken_engine_def)
  have reg': "e_rules rejecting_engine = (e_rules demo_engine)\<lparr>r_custom := [] @ rejecting_rule # []\<rparr>"
    by (simp add: rejecting_engine_def)
  have same: "broken_engine\<lparr>e_rules := (e_rules demo_engine)\<lparr>r_custom := [] @ []\<rparr>\<rparr> = demo_engine"
    by (simp add: broken_engine_def demo_engine_def addDefaultRules_def no_rules_def)
  have a: "run_rule ''research'' ''plan'' demo_context demo_store 1000 throwing_rule =
      Some \<lparr>isValid = True, message = RuleThrew ''boom'', recommendation = None, severity = None,
       ruleId = r_id throwing_rule, ruleName = r_name throwing_rule, thrown = Some ''boom''\<rparr>
    \<and> success (fst (switchMode broken_engine 1000 ''plan'' (switch_defaults ''T1'') demo_store))
       = success (fst (switchMode demo_engine 1000 ''plan'' (switch_defaults ''T1'') demo_store))
    \<and> snd (switchMode broken_engine 1000 ''plan'' (switch_defaults ''T1'') demo_store)
       = snd (switchMode demo_engine 1000 ''plan'' (switch_defaults ''T1'') demo_store)"
    using throwing_rule_fail_open[where r = throwing_rule and f = "''research''" and t = "''plan''"
        and ctx = demo_context and st = demo_store and now = 1000 and e = "''boom''"
        and reg = "e_rules demo_engine" and ?cs1.0 = "[]" and ?cs2.0 = "[]" and iw = False
        and eng = broken_engine and opts = "switch_defaults ''T1''" and ?st0.0 = demo_store
        and s = demo_state]
      thr gs ctx cur reg
    unfolding same by blast
  have b: "run_rule ''research'' ''plan'' demo_context demo_store 1000 rejecting_rule = None
    \<and> validateTransition ((e_rules demo_engine)\<lparr>r_custom := [] @ rejecting_rule # []\<rparr>)
         ''research'' ''plan'' demo_context False demo_store 1000 = validation_error"
    using throwing_rule_fail_open[where r = rejecting_rule and f = "''research''" and t = "''plan''"
        and ctx = demo_context and st = demo_store and now = 1000
        and reg = "e_rules demo_engine" and ?cs1.0 = "[]" and ?cs2.0 = "[]" and iw = False]
      rej[of "''plan''"]
    by blast
  have c: "validation_gate rejecting_engine 1000 ''execute'' (switch_defaults ''T1'') demo_state
        demo_store = None"
    using throwing_rule_fail_open[where r = rejecting_rule and f = "''research''" and t = "''execute''"
        and ctx = demo_context and st = demo_store and now = 1000
        and reg = "e_rules demo_engine" and ?cs1.0 = "[]" and ?cs2.0 = "[]" and iw = False
        and eng = rejecting_engine and opts = "switch_defaults ''T1''" and s = demo_state]
      rej[of "''execute''"] ctx cur reg'
    by blast
  show ?thesis
    using a b c demo_plan_valid unfolding demo_switch_plan reg'[symmetric]
    by (simp add: throwing_rule_def)
qed

subsection \<open>The valid transition path rule\<close>

lemma gate_rejects_bad_path:
  assumes rules: "r_default (e_rules eng) =
        [checklistCompletionRule (e_cfg eng), validTransitionRule (e_cfg eng), minTimeSpentRule (e_cfg eng)]"
    and custom: "\<forall>r \<in> set (r_custom (e_rules eng)).
        condition r (currentMode s) t \<lparr>c_taskId = o_taskId opts, c_state = s\<rparr> st now \<noteq> Inl ThrowNullish"
    and nf: "\<not> force opts"
    and ne: "nextModeOptions (e_cfg eng) (currentMode s) \<noteq> []"
    and bad: "t \<notin> set (nextModeOptions (e_cfg eng) (currentMode s))"
  shows "\<exists>v. validation_gate eng now t opts s st = Some (ValidationFailed v (InvalidPath (currentMode s) t))
           \<and> ruleId (hd (v_errors v)) = ''valid-transition-path''
           \<and> severity (hd (v_errors v)) = Some ''error''"
proof -
  let ?ctx = "\<lparr>c_taskId = o_taskId opts, c_state = s\<rparr>"
  let ?v = "validateTransition (e_rules eng) (currentMode s) t ?ctx (\<not> ignoreWarnings opts) st now"
  let ?p = "the (run_rule (currentMode s) t ?ctx st now (validTransitionRule (e_cfg eng)))"
  let ?c = "the (run_rule (currentMode s) t ?ctx st now (checklistCompletionRule (e_cfg eng)))"
  have all: "\<forall>r \<in> set (r_default (e_rules eng) @ r_custom (e_rules eng)).
      run_rule (currentMode s) t ?ctx st now r \<noteq> None"
    using custom default_rules_return[of "currentMode s" t ?ctx st now "e_cfg eng"]
    by (auto simp: rules run_rule_None_iff)
  have p: "?p = \<lparr>isValid = False, message = InvalidPath (currentMode s) t,
         recommendation = Some (ValidOptions (nextModeOptions (e_cfg eng) (currentMode s))),
         severity = Some ''error'',
         ruleId = ''valid-transition-path'', ruleName = ''valid transition path rule'', thrown = None\<rparr>"
    using ne bad by (simp add: path_rule_result)
  have c: "isValid ?c \<or> severity ?c = Some ''warning''" by (rule checklist_rule_warns)
  have errs: "\<exists>rest. v_errors ?v = ?p # rest"
    unfolding validate_errors[OF all] using c by (auto simp: rules p)
  have inv: "\<not> v_isValid ?v"
    unfolding validate_isValid[OF all] by (simp add: rules p)
  from errs obtain rest where rest: "v_errors ?v = ?p # rest" by blast
  have "validation_gate eng now t opts s st = Some (ValidationFailed ?v (message (hd (v_errors ?v))))"
    using nf inv rest by (simp add: validation_gate_def Let_def)
  then show ?thesis using rest by (auto simp: p)
qed

text \<open>
  Claim C3. The valid-transition-path rule never throws; its entry has the severity
  'error' exactly when the source mode has next modes configured and the target is not
  one of them, and it passes (isValid, no severity) exactly when the source mode has no
  next modes configured or the target is one of them. For a call that names a task whose
  state can be read or created and is in another mode than the target: without force,
  with the default rules registered and no custom rule rejecting with \<^verbatim>\<open>undefined\<close> or
  \<^verbatim>\<open>null\<close>, a switch to a target outside the non-empty list of next modes is refused,
  the first error of the report being the entry of the valid-transition-path rule, and no
  history entry is stored; with force, or when a registered rule rejects with
  \<^verbatim>\<open>undefined\<close> or \<^verbatim>\<open>null\<close>, the validation does not stop the switch: when the
  state file can be written and no hook throws, the switch succeeds whatever the target
  is, the history entry is appended and the state stored.
\<close>

theorem valid_transition_path:
  assumes "o_taskId opts \<noteq> []"
    and "getState (e_cfg eng) now (o_taskId opts) st = (Inr s, st')"
    and "currentMode s \<noteq> t"
  shows "(\<exists>e. run_rule f t ctx st0 now0 (validTransitionRule cfg) = Some e
             \<and> ruleId e = ''valid-transition-path''
             \<and> (severity e = Some ''error'')
                 = (nextModeOptions cfg f \<noteq> [] \<and> t \<notin> set (nextModeOptions cfg f))
             \<and> isValid e = (nextModeOptions cfg f = [] \<or> t \<in> set (nextModeOptions cfg f))
             \<and> (isValid e \<longrightarrow> severity e = None))
       \<and> (\<not> force opts
           \<and> r_default (e_rules eng) =
               [checklistCompletionRule (e_cfg eng), validTransitionRule (e_cfg eng),
                minTimeSpentRule (e_cfg eng)]
           \<and> (\<forall>r \<in> set (r_custom (e_rules eng)).
                 condition r (currentMode s) t \<lparr>c_taskId = o_taskId opts, c_state = s\<rparr> st' now
                   \<noteq> Inl ThrowNullish)
           \<and> nextModeOptions (e_cfg eng) (currentMode s) \<noteq> []
           \<and> t \<notin> set (nextModeOptions (e_cfg eng) (currentMode s)) \<longrightarrow>
             (\<exists>v. switchMode eng now t opts st =
                     (ValidationFailed v (InvalidPath (currentMode s) t), st')
                  \<and> ruleId (hd (v_errors v)) = ''valid-transition-path''
                  \<and> severity (hd (v_errors v)) = Some ''error'')
             \<and> st' (o_taskId opts) = Some s)
       \<and> ((force opts
            \<or> (\<exists>r \<in> set (r_default (e_rules eng) @ r_custom (e_rules eng)).
                 condition r (currentMode s) t \<lparr>c_taskId = o_taskId opts, c_state = s\<rparr> st' now
                   = Inl ThrowNullish))
           \<and> writable (e_cfg eng) (o_taskId opts)
           \<and> (\<forall>h \<in> set (beforeModeSwitch (e_hooks eng)). h (before_data opts t s) = None)
           \<and> (\<forall>h \<in> set (afterModeSwitch (e_hooks eng)). h (after_data now opts t s) = None) \<longrightarrow>
             switchMode eng now t opts st =
               (Switched (entered now t (o_switch_note opts) s) (currentMode s),
                st'(o_taskId opts \<mapsto> entered now t (o_switch_note opts) s)))"
proof -
  have stored: "st' (o_taskId opts) = Some s" using assms(2) by (rule getState_stored)
  have p1: "\<exists>e. run_rule f t ctx st0 now0 (validTransitionRule cfg) = Some e
             \<and> ruleId e = ''valid-transition-path''
             \<and> (severity e = Some ''error'')
                 = (nextModeOptions cfg f \<noteq> [] \<and> t \<notin> set (nextModeOptions cfg f))
             \<and> isValid e = (nextModeOptions cfg f = [] \<or> t \<in> set (nextModeOptions cfg f))
             \<and> (isValid e \<longrightarrow> severity e = None)"
    by (simp add: path_rule_result)
  have p2: "(\<exists>v. switchMode eng now t opts st =
                     (ValidationFailed v (InvalidPath (currentMode s) t), st')
                  \<and> ruleId (hd (v_errors v)) = ''valid-transition-path''
                  \<and> severity (hd (v_errors v)) = Some ''error'')
             \<and> st' (o_taskId opts) = Some s"
    if h: "\<not> force opts
           \<and> r_default (e_rules eng) =
               [checklistCompletionRule (e_cfg eng), validTransitionRule (e_cfg eng),
                minTimeSpentRule (e_cfg eng)]
           \<and> (\<forall>r \<in> set (r_custom (e_rules eng)).
                 condition r (currentMode s) t \<lparr>c_taskId = o_taskId opts, c_state = s\<rparr> st' now
                   \<noteq> Inl ThrowNullish)
           \<and> nextModeOptions (e_cfg eng) (currentMode s) \<noteq> []
           \<and> t \<notin> set (nextModeOptions (e_cfg eng) (currentMode s))"
  proof -
    obtain v where v: "validation_gate eng now t opts s st'
          = Some (ValidationFailed v (InvalidPath (currentMode s) t))"
        "ruleId (hd (v_errors v)) = ''valid-transition-path''"
        "severity (hd (v_errors v)) = Some ''error''"
      using gate_rejects_bad_path[of eng s t opts st' now] h by blast
    have "switchMode eng now t opts st = (ValidationFailed v (InvalidPath (currentMode s) t), st')"
      using assms v(1) by (rule switchMode_refused)
    with v stored show ?thesis by blast
  qed
  have p3: "switchMode eng now t opts st =
               (Switched (entered now t (o_switch_note opts) s) (currentMode s),
                st'(o_taskId opts \<mapsto> entered now t (o_switch_note opts) s))"
    if h: "(force opts
            \<or> (\<exists>r \<in> set (r_default (e_rules eng) @ r_custom (e_rules eng)).
                 condition r (currentMode s) t \<lparr>c_taskId = o_taskId opts, c_state = s\<rparr> st' now
                   = Inl ThrowNullish))
           \<and> writable (e_cfg eng) (o_taskId opts)
           \<and> (\<forall>h \<in> set (beforeModeSwitch (e_hooks eng)). h (before_data opts t s) = None)
           \<and> (\<forall>h \<in> set (afterModeSwitch (e_hooks eng)). h (after_data now opts t s) = None)"
  proof -
    have g: "validation_gate eng now t opts s st' = None"
    proof (cases "force opts")
      case True
      then show ?thesis by (simp add: validation_gate_def)
    next
      case False
      then obtain r where "r \<in> set (r_default (e_rules eng) @ r_custom (e_rules eng))"
          "condition r (currentMode s) t \<lparr>c_taskId = o_taskId opts, c_state = s\<rparr> st' now
             = Inl ThrowNullish"
        using h by blast
      then show ?thesis by (rule gate_skipped)
    qed
    have "switchMode eng now t opts st = commit_switch eng now t opts s st'"
      using assms g by (rule switchMode_passed_gate)
    then show ?thesis using h stored
      by (simp add: commit_switch_present runHooks_None[symmetric])
  qed
  show ?thesis using p1 p2 p3 by blast
qed

lemma rejecting_rules:
  "r_default (e_rules rejecting_engine) @ r_custom (e_rules rejecting_engine) =
     [checklistCompletionRule DEFAULT_CONFIG, validTransitionRule DEFAULT_CONFIG,
      minTimeSpentRule DEFAULT_CONFIG, rejecting_rule]"
  by (simp add: rejecting_engine_def demo_engine_def addDefaultRules_def no_rules_def)

theorem valid_transition_path_witness:
  "(\<exists>v. switchMode demo_engine 1000 ''execute'' (switch_defaults ''T1'') demo_store =
           (ValidationFailed v (InvalidPath ''research'' ''execute''), demo_store)
        \<and> ruleId (hd (v_errors v)) = ''valid-transition-path''
        \<and> severity (hd (v_errors v)) = Some ''error'')
   \<and> switchMode demo_engine 1000 ''execute'' (forced ''T1'') demo_store =
       (Switched (entered 1000 ''execute'' [] demo_state) ''research'',
        demo_store(''T1'' \<mapsto> entered 1000 ''execute'' [] demo_state))
   \<and> switchMode rejecting_engine 1000 ''execute'' (switch_defaults ''T1'') demo_store =
       (Switched (entered 1000 ''execute'' [] demo_state) ''research'',
        demo_store(''T1'' \<mapsto> entered 1000 ''execute'' [] demo_state))
   \<and> ''execute'' \<notin> set (nextModeOptions DEFAULT_CONFIG ''research'')"
proof -
  have a: "o_taskId (switch_defaults ''T1'') \<noteq> []" "o_taskId (forced ''T1'') \<noteq> []"
    by (simp_all add: switch_defaults_def forced_def)
  have b: "getState (e_cfg eng) 1000 (o_taskId (switch_defaults ''T1'')) demo_store
             = (Inr demo_state, demo_store)"
      "getState (e_cfg eng) 1000 (o_taskId (forced ''T1'')) demo_store
             = (Inr demo_state, demo_store)" for eng
    by (simp_all add: getState_def switch_defaults_def forced_def demo_present)
  have c: "currentMode demo_state \<noteq> ''execute''" by (simp add: demo_current)
  have e: "e_cfg rejecting_engine = DEFAULT_CONFIG"
      "beforeModeSwitch (e_hooks rejecting_engine) = []"
      "afterModeSwitch (e_hooks rejecting_engine) = []"
    by (simp_all add: rejecting_engine_def demo_engine_def no_hooks_def)
  have p1: "\<exists>v. switchMode demo_engine 1000 ''execute'' (switch_defaults ''T1'') demo_store =
           (ValidationFailed v (InvalidPath ''research'' ''execute''), demo_store)
        \<and> ruleId (hd (v_errors v)) = ''valid-transition-path''
        \<and> severity (hd (v_errors v)) = Some ''error''"
    using valid_transition_path[where opts = "switch_defaults ''T1''" and st = demo_store
            and st' = demo_store and s = demo_state and t = "''execute''" and now = 1000
            and eng = demo_engine, OF a(1) b(1) c]
    by (simp add: demo_default_rules demo_cfg demo_next_research demo_current
        switch_defaults_def demo_engine_def no_rules_def addDefaultRules_def)
  have p2: "switchMode demo_engine 1000 ''execute'' (forced ''T1'') demo_store =
       (Switched (entered 1000 ''execute'' [] demo_state) ''research'',
        demo_store(''T1'' \<mapsto> entered 1000 ''execute'' [] demo_state))"
    using valid_transition_path[where opts = "forced ''T1''" and st = demo_store
            and st' = demo_store and s = demo_state and t = "''execute''" and now = 1000
            and eng = demo_engine, OF a(2) b(2) c]
    by (simp add: demo_cfg demo_no_hooks demo_current demo_writable switch_defaults_def forced_def)
  have p3: "switchMode rejecting_engine 1000 ''execute'' (switch_defaults ''T1'') demo_store =
       (Switched (entered 1000 ''execute'' [] demo_state) ''research'',
        demo_store(''T1'' \<mapsto> entered 1000 ''execute'' [] demo_state))"
    using valid_transition_path[where opts = "switch_defaults ''T1''" and st = demo_store
            and st' = demo_store and s = demo_state and t = "''execute''" and now = 1000
            and eng = rejecting_engine, OF a(1) b(1) c]
    unfolding rejecting_rules
    by (simp add: e demo_current demo_writable switch_defaults_def rejecting_rule_def)
  show ?thesis using p1 p2 p3 by (simp add: demo_next_research)
qed

subsection \<open>Hooks that throw\<close>

lemma getState_absent:
  assumes "st tid = None" and "writable cfg tid"
  shows "\<exists>s. getState cfg now tid st = (Inr s, st(tid \<mapsto> s))
           \<and> currentMode s = defaultMode cfg
           \<and> map h_mode (modeHistory s) = [defaultMode cfg]"
  using assms by (simp add: getState_def createState_def saveState_def no_options_def Let_def)

text \<open>
  Claim C8 (as amended). For a call of switchMode that reaches the hooks (a task is named,
  its state \<open>s\<close> is read, or created when there is none, the target is another mode and
  the validation step does not refuse): when a beforeModeSwitch hook throws, switchMode
  fails with what a hook threw, and no history entry is appended: the state directory is
  as reading the state left it, holding \<open>s\<close> for the task, and it is unchanged when the
  task had a state. When no beforeModeSwitch hook throws, the state file can be written
  and an afterModeSwitch hook throws, switchMode also fails with what a hook threw,
  although the state with the history entry appended has been stored. When no hook
  throws, switchMode returns the success object with that state.
\<close>

theorem hook_errors_fail_the_switch:
  assumes "o_taskId opts \<noteq> []"
    and "getState (e_cfg eng) now (o_taskId opts) st = (Inr s, st')"
    and "currentMode s \<noteq> m"
    and "validation_gate eng now m opts s st' = None"
  shows "((\<exists>h \<in> set (beforeModeSwitch (e_hooks eng)). h (before_data opts m s) \<noteq> None) \<longrightarrow>
            (\<exists>e. switchMode eng now m opts st = (hook_failure e, st')
                 \<and> \<not> success (hook_failure e)
                 \<and> (\<exists>h \<in> set (beforeModeSwitch (e_hooks eng)). h (before_data opts m s) = Some e))
            \<and> st' (o_taskId opts) = Some s
            \<and> (o_taskId opts \<in> dom st \<longrightarrow> st' = st))
       \<and> ((\<forall>h \<in> set (beforeModeSwitch (e_hooks eng)). h (before_data opts m s) = None)
           \<and> writable (e_cfg eng) (o_taskId opts)
           \<and> (\<exists>h \<in> set (afterModeSwitch (e_hooks eng)). h (after_data now opts m s) \<noteq> None) \<longrightarrow>
            (\<exists>e. switchMode eng now m opts st =
                   (hook_failure e,
                    st'(o_taskId opts \<mapsto> entered now m (o_switch_note opts) s))
                 \<and> \<not> success (hook_failure e)
                 \<and> (\<exists>h \<in> set (afterModeSwitch (e_hooks eng)). h (after_data now opts m s) = Some e)))
       \<and> ((\<forall>h \<in> set (beforeModeSwitch (e_hooks eng)). h (before_data opts m s) = None)
           \<and> writable (e_cfg eng) (o_taskId opts)
           \<and> (\<forall>h \<in> set (afterModeSwitch (e_hooks eng)). h (after_data now opts m s) = None) \<longrightarrow>
            switchMode eng now m opts st =
              (Switched (entered now m (o_switch_note opts) s) (currentMode s),
               st'(o_taskId opts \<mapsto> entered now m (o_switch_note opts) s)))"
proof -
  let ?b = "runHooks (beforeModeSwitch (e_hooks eng)) (before_data opts m s)"
  let ?a = "runHooks (afterModeSwitch (e_hooks eng)) (after_data now opts m s)"
  have stored: "st' (o_taskId opts) = Some s" using assms(2) by (rule getState_stored)
  have same: "o_taskId opts \<in> dom st \<longrightarrow> st' = st"
    using assms(2) by (auto simp: getState_def)
  have nos: "\<not> success (hook_failure e)" for e by (cases e) simp_all
  have "switchMode eng now m opts st = commit_switch eng now m opts s st'"
    using assms by (rule switchMode_passed_gate)
  then have sw: "switchMode eng now m opts st =
     (case ?b of
        Some e \<Rightarrow> (hook_failure e, st')
      | None \<Rightarrow>
          if writable (e_cfg eng) (o_taskId opts) then
            (case ?a of
               Some e \<Rightarrow> (hook_failure e,
                          st'(o_taskId opts \<mapsto> entered now m (o_switch_note opts) s))
             | None \<Rightarrow> (Switched (entered now m (o_switch_note opts) s) (currentMode s),
                        st'(o_taskId opts \<mapsto> entered now m (o_switch_note opts) s)))
          else (SwitchFailed (Failed ''updateModeHistory''
                   (Failed ''updateState'' (WriteFailed (o_taskId opts)))), st'))"
    using stored by (simp only: commit_switch_present)
  have p1: "(\<exists>h \<in> set (beforeModeSwitch (e_hooks eng)). h (before_data opts m s) \<noteq> None) \<longrightarrow>
            (\<exists>e. switchMode eng now m opts st = (hook_failure e, st')
                 \<and> \<not> success (hook_failure e)
                 \<and> (\<exists>h \<in> set (beforeModeSwitch (e_hooks eng)). h (before_data opts m s) = Some e))
            \<and> st' (o_taskId opts) = Some s
            \<and> (o_taskId opts \<in> dom st \<longrightarrow> st' = st)"
  proof
    assume "\<exists>h \<in> set (beforeModeSwitch (e_hooks eng)). h (before_data opts m s) \<noteq> None"
    then have "?b \<noteq> None" by (simp add: runHooks_None)
    then obtain e where e: "?b = Some e" by auto
    have "switchMode eng now m opts st = (hook_failure e, st')" by (simp add: sw e)
    with runHooks_Some[OF e] nos[of e] stored same
    show "(\<exists>e. switchMode eng now m opts st = (hook_failure e, st')
                 \<and> \<not> success (hook_failure e)
                 \<and> (\<exists>h \<in> set (beforeModeSwitch (e_hooks eng)). h (before_data opts m s) = Some e))
            \<and> st' (o_taskId opts) = Some s
            \<and> (o_taskId opts \<in> dom st \<longrightarrow> st' = st)"
      by blast
  qed
  have p2: "(\<forall>h \<in> set (beforeModeSwitch (e_hooks eng)). h (before_data opts m s) = None)
           \<and> writable (e_cfg eng) (o_taskId opts)
           \<and> (\<exists>h \<in> set (afterModeSwitch (e_hooks eng)). h (after_data now opts m s) \<noteq> None) \<longrightarrow>
            (\<exists>e. switchMode eng now m opts st =
                   (hook_failure e,
                    st'(o_taskId opts \<mapsto> entered now m (o_switch_note opts) s))
                 \<and> \<not> success (hook_failure e)
                 \<and> (\<exists>h \<in> set (afterModeSwitch (e_hooks eng)). h (after_data now opts m s) = Some e))"
  proof
    assume h: "(\<forall>h \<in> set (beforeModeSwitch (e_hooks eng)). h (before_data opts m s) = None)
           \<and> writable (e_cfg eng) (o_taskId opts)
           \<and> (\<exists>h \<in> set (afterModeSwitch (e_hooks eng)). h (after_data now opts m s) \<noteq> None)"
    then have b: "?b = None" by (simp add: runHooks_None)
    from h have "?a \<noteq> None" by (simp add: runHooks_None)
    then obtain e where e: "?a = Some e" by auto
    have "switchMode eng now m opts st =
        (hook_failure e, st'(o_taskId opts \<mapsto> entered now m (o_switch_note opts) s))"
      using h by (simp add: sw b e)
    with runHooks_Some[OF e] nos[of e]
    show "\<exists>e. switchMode eng now m opts st =
                   (hook_failure e,
                    st'(o_taskId opts \<mapsto> entered now m (o_switch_note opts) s))
                 \<and> \<not> success (hook_failure e)
                 \<and> (\<exists>h \<in> set (afterModeSwitch (e_hooks eng)). h (after_data now opts m s) = Some e)"
      by blast
  qed
  have p3: "(\<forall>h \<in> set (beforeModeSwitch (e_hooks eng)). h (before_data opts m s) = None)
           \<and> writable (e_cfg eng) (o_taskId opts)
           \<and> (\<forall>h \<in> set (afterModeSwitch (e_hooks eng)). h (after_data now opts m s) = None) \<longrightarrow>
            switchMode eng now m opts st =
              (Switched (entered now m (o_switch_note opts) s) (currentMode s),
               st'(o_taskId opts \<mapsto> entered now m (o_switch_note opts) s))"
    by (simp add: sw runHooks_None[symmetric])
  show ?thesis using p1 p2 p3 by blast
qed

text \<open>
  With a throwing afterModeSwitch hook, switchMode reports a failure although the history
  entry has been appended and stored.
\<close>

theorem hook_errors_fail_the_switch_counterexample:
  "switchMode hooked_engine 1000 ''plan'' (forced ''T1'') demo_store =
     (SwitchFailed (HookThrew ''hook failed''),
      demo_store(''T1'' \<mapsto> entered 1000 ''plan'' [] demo_state))
   \<and> success (fst (switchMode hooked_engine 1000 ''plan'' (forced ''T1'') demo_store)) = False
   \<and> map h_mode (modeHistory (entered 1000 ''plan'' [] demo_state)) = [''research'', ''plan'']
   \<and> map h_mode (modeHistory demo_state) = [''research'']"
proof -
  have a: "o_taskId (forced ''T1'') \<noteq> []" by (simp add: switch_defaults_def forced_def)
  have b: "demo_store (o_taskId (forced ''T1'')) = Some demo_state"
    by (simp add: switch_defaults_def forced_def demo_present)
  have b': "getState (e_cfg hooked_engine) 1000 (o_taskId (forced ''T1'')) demo_store
      = (Inr demo_state, demo_store)"
    using b by (rule getState_present)
  have c: "currentMode demo_state \<noteq> ''plan''" by (simp add: demo_current)
  have g: "validation_gate hooked_engine 1000 ''plan'' (forced ''T1'') demo_state demo_store = None"
    by (simp add: validation_gate_def forced_def)
  have w: "writable (e_cfg hooked_engine) (o_taskId (forced ''T1''))"
    by (simp add: hooked_engine_def demo_cfg demo_writable forced_def switch_defaults_def)
  have "switchMode hooked_engine 1000 ''plan'' (forced ''T1'') demo_store
      = commit_switch hooked_engine 1000 ''plan'' (forced ''T1'') demo_state demo_store"
    using a b' c g by (rule switchMode_passed_gate)
  then have sw: "switchMode hooked_engine 1000 ''plan'' (forced ''T1'') demo_store =
     (SwitchFailed (HookThrew ''hook failed''),
      demo_store(''T1'' \<mapsto> entered 1000 ''plan'' [] demo_state))"
    using b w
    by (simp add: commit_switch_present runHooks_def hooked_engine_def throwing_hook_def
        forced_def switch_defaults_def)
  show ?thesis unfolding sw by (simp add: entered_def demo_history)
qed

theorem hook_errors_fail_the_switch_witness:
  "switchMode blocked_engine 1000 ''plan'' (forced ''T1'') demo_store =
          (SwitchFailed (HookThrew ''hook failed''), demo_store)
   \<and> switchMode hooked_engine 1000 ''plan'' (forced ''T1'') demo_store =
          (SwitchFailed (HookThrew ''hook failed''),
           demo_store(''T1'' \<mapsto> entered 1000 ''plan'' [] demo_state))
   \<and> (\<exists>s. switchMode blocked_engine 1000 ''plan'' (forced ''T9'') Map.empty =
          (SwitchFailed (HookThrew ''hook failed''), [''T9'' \<mapsto> s])
        \<and> map h_mode (modeHistory s) = [''research''])"
proof -
  have a: "o_taskId (forced tid) = tid" "o_switch_note (forced tid) = []" for tid
    by (simp_all add: switch_defaults_def forced_def)
  have b: "getState (e_cfg eng) 1000 (o_taskId (forced ''T1'')) demo_store
      = (Inr demo_state, demo_store)" for eng
    by (simp add: getState_def switch_defaults_def forced_def demo_present)
  have c: "currentMode demo_state \<noteq> ''plan''" by (simp add: demo_current)
  have g: "validation_gate eng 1000 ''plan'' (forced tid) s st = None" for eng tid s st
    by (simp add: validation_gate_def forced_def)
  have cfg: "e_cfg blocked_engine = DEFAULT_CONFIG" "e_cfg hooked_engine = DEFAULT_CONFIG"
    by (simp_all add: blocked_engine_def hooked_engine_def demo_cfg)
  have hk: "beforeModeSwitch (e_hooks blocked_engine) = [throwing_hook]"
      "afterModeSwitch (e_hooks blocked_engine) = []"
      "beforeModeSwitch (e_hooks hooked_engine) = []"
      "afterModeSwitch (e_hooks hooked_engine) = [throwing_hook]"
    by (simp_all add: blocked_engine_def hooked_engine_def)
  have p1: "switchMode blocked_engine 1000 ''plan'' (forced ''T1'') demo_store =
          (SwitchFailed (HookThrew ''hook failed''), demo_store)"
    using hook_errors_fail_the_switch[where opts = "forced ''T1''" and st = demo_store
        and st' = demo_store and s = demo_state and m = "''plan''" and eng = blocked_engine
        and now = 1000, OF _ b c g]
    by (auto simp: a hk throwing_hook_def)
  have p2: "switchMode hooked_engine 1000 ''plan'' (forced ''T1'') demo_store =
          (SwitchFailed (HookThrew ''hook failed''),
           demo_store(''T1'' \<mapsto> entered 1000 ''plan'' [] demo_state))"
    using hook_errors_fail_the_switch[where opts = "forced ''T1''" and st = demo_store
        and st' = demo_store and s = demo_state and m = "''plan''" and eng = hooked_engine
        and now = 1000, OF _ b c g]
    by (auto simp: a hk cfg demo_writable throwing_hook_def)
  have w9: "writable DEFAULT_CONFIG ''T9''" by (simp add: DEFAULT_CONFIG_def stateFileName_def)
  obtain s9 where s9: "getState DEFAULT_CONFIG 1000 ''T9'' Map.empty = (Inr s9, [''T9'' \<mapsto> s9])"
      "currentMode s9 = defaultMode DEFAULT_CONFIG"
      "map h_mode (modeHistory s9) = [defaultMode DEFAULT_CONFIG]"
    using getState_absent[of Map.empty "''T9''" DEFAULT_CONFIG 1000] w9 by auto
  have d: "defaultMode DEFAULT_CONFIG = ''research''" by (simp add: DEFAULT_CONFIG_def)
  have b9: "getState (e_cfg blocked_engine) 1000 (o_taskId (forced ''T9'')) Map.empty
      = (Inr s9, [''T9'' \<mapsto> s9])"
    by (simp add: a cfg s9(1))
  have c9: "currentMode s9 \<noteq> ''plan''" by (simp add: s9(2) d)
  have "switchMode blocked_engine 1000 ''plan'' (forced ''T9'') Map.empty =
          (SwitchFailed (HookThrew ''hook failed''), [''T9'' \<mapsto> s9])"
    using hook_errors_fail_the_switch[where opts = "forced ''T9''" and st = Map.empty
        and st' = "[''T9'' \<mapsto> s9]" and s = s9 and m = "''plan''" and eng = blocked_engine
        and now = 1000, OF _ b9 c9 g]
    by (auto simp: a hk throwing_hook_def)
  then have p3: "\<exists>s. switchMode blocked_engine 1000 ''plan'' (forced ''T9'') Map.empty =
          (SwitchFailed (HookThrew ''hook failed''), [''T9'' \<mapsto> s])
        \<and> map h_mode (modeHistory s) = [''research'']"
    using s9(3) d by auto
  show ?thesis using p1 p2 p3 by blast
qed

subsection \<open>Cycle detection\<close>

lemma split_comma_free: "comma_free x \<Longrightarrow> split x = [x]"
  by (induction x) (auto simp: comma_free_def)

lemma split_append_comma: "comma_free x \<Longrightarrow> split (x @ CHR '','' # r) = x # split r"
  by (induction x) (auto simp: comma_free_def)

lemma split_join: "xs \<noteq> [] \<Longrightarrow> \<forall>x \<in> set xs. comma_free x \<Longrightarrow> split (join xs) = xs"
proof (induction xs rule: join.induct)
  case 1
  then show ?case by simp
next
  case (2 x)
  then show ?case by (simp add: split_comma_free)
next
  case (3 x y ys)
  then show ?case by (simp add: split_append_comma)
qed

lemma join_inj:
  assumes "xs \<noteq> []" "ys \<noteq> []" "\<forall>x \<in> set xs. comma_free x" "\<forall>y \<in> set ys. comma_free y"
    and "join xs = join ys"
  shows "xs = ys"
proof -
  have "xs = split (join xs)" using assms(1,3) by (simp add: split_join)
  also have "\<dots> = split (join ys)" by (simp only: assms(5))
  also have "\<dots> = ys" using assms(2,4) by (simp add: split_join)
  finally show ?thesis .
qed

lemma slice_length: "b \<le> length xs \<Longrightarrow> a \<le> b \<Longrightarrow> length (slice xs a b) = b - a"
  by (simp add: slice_def)

lemma slice_set: "set (slice xs a b) \<subseteq> set xs"
  unfolding slice_def by (meson set_take_subset set_drop_subset subset_trans)

lemma cycle_step_eq:
  "cycle_step seq len (cs, seen) i =
     (if key_repeats seq len i \<and> pattern_key seq len i \<notin> set seen
      then (cs @ [cycle_at seq len i], seen @ [pattern_key seq len i])
      else (cs, seen))"
  by (auto simp add: cycle_step_def key_repeats_def pattern_key_def cycle_at_def Let_def)

lemma fresh_least:
  assumes "pattern_key seq len k \<notin> set seen"
    and "\<forall>j<k. fresh_key seen seq len j \<longrightarrow> pattern_key seq len j \<noteq> pattern_key seq len k"
  shows "j < k \<Longrightarrow> key_repeats seq len j \<Longrightarrow> pattern_key seq len j \<noteq> pattern_key seq len k"
proof (induction j rule: less_induct)
  case (less j)
  show ?case
  proof
    assume eq: "pattern_key seq len j = pattern_key seq len k"
    have "\<forall>j'<j. key_repeats seq len j' \<longrightarrow> pattern_key seq len j' \<noteq> pattern_key seq len j"
      using less.IH less.prems(1) eq by auto
    then have "fresh_key seen seq len j"
      using less.prems(2) assms(1) eq by (simp add: fresh_key_def)
    then show False using assms(2) less.prems(1) eq by blast
  qed
qed

lemma inner_loop:
  "foldl (cycle_step seq len) (cs0, seen0) [0..<k] =
     (cs0 @ map (cycle_at seq len) (filter (fresh_key seen0 seq len) [0..<k]),
      seen0 @ map (pattern_key seq len) (filter (fresh_key seen0 seq len) [0..<k]))"
proof (induction k)
  case 0
  show ?case by simp
next
  case (Suc k)
  let ?F = "filter (fresh_key seen0 seq len) [0..<k]"
  let ?seen = "seen0 @ map (pattern_key seq len) ?F"
  have mem: "(pattern_key seq len k \<notin> set ?seen) =
      (pattern_key seq len k \<notin> set seen0
       \<and> (\<forall>j<k. fresh_key seen0 seq len j \<longrightarrow> pattern_key seq len j \<noteq> pattern_key seq len k))"
    by (fastforce simp: image_iff)
  have fr: "(key_repeats seq len k \<and> pattern_key seq len k \<notin> set ?seen) = fresh_key seen0 seq len k"
  proof
    assume a: "key_repeats seq len k \<and> pattern_key seq len k \<notin> set ?seen"
    then have b: "pattern_key seq len k \<notin> set seen0"
        "\<forall>j<k. fresh_key seen0 seq len j \<longrightarrow> pattern_key seq len j \<noteq> pattern_key seq len k"
      using mem by blast+
    have "\<forall>j<k. key_repeats seq len j \<longrightarrow> pattern_key seq len j \<noteq> pattern_key seq len k"
      using fresh_least[OF b] by blast
    with a b show "fresh_key seen0 seq len k" by (simp add: fresh_key_def)
  next
    assume a: "fresh_key seen0 seq len k"
    then have "\<forall>j<k. fresh_key seen0 seq len j \<longrightarrow> pattern_key seq len j \<noteq> pattern_key seq len k"
      by (simp add: fresh_key_def)
    with a show "key_repeats seq len k \<and> pattern_key seq len k \<notin> set ?seen"
      using mem by (simp add: fresh_key_def)
  qed
  have "foldl (cycle_step seq len) (cs0, seen0) [0..<Suc k]
      = cycle_step seq len (foldl (cycle_step seq len) (cs0, seen0) [0..<k]) k"
    by simp
  also have "\<dots> = cycle_step seq len (cs0 @ map (cycle_at seq len) ?F, ?seen) k"
    by (simp only: Suc.IH)
  also have "\<dots> = (if fresh_key seen0 seq len k
      then ((cs0 @ map (cycle_at seq len) ?F) @ [cycle_at seq len k], ?seen @ [pattern_key seq len k])
      else (cs0 @ map (cycle_at seq len) ?F, ?seen))"
    by (simp only: cycle_step_eq fr)
  also have "\<dots> = (cs0 @ map (cycle_at seq len) (filter (fresh_key seen0 seq len) [0..<Suc k]),
      seen0 @ map (pattern_key seq len) (filter (fresh_key seen0 seq len) [0..<Suc k]))"
    by simp
  finally show ?case .
qed

lemma slice_comma_free:
  assumes "\<forall>m \<in> set seq. comma_free m"
  shows "\<forall>m \<in> set (slice seq a b). comma_free m"
proof
  fix m assume "m \<in> set (slice seq a b)"
  then have "m \<in> set seq" using slice_set[of seq a b] by (rule rev_subsetD)
  then show "comma_free m" using assms by blast
qed

lemma slice_nonempty:
  assumes "1 \<le> len" and "i + len \<le> length seq"
  shows "slice seq i (i + len) \<noteq> []"
proof -
  have "length (slice seq i (i + len)) = len" using assms(2) by (simp add: slice_def)
  then show ?thesis using assms(1) by (cases "slice seq i (i + len)") simp_all
qed

lemma key_eq_iff:
  assumes cf: "\<forall>m \<in> set seq. comma_free m"
    and "1 \<le> len" "i + len \<le> length seq" "1 \<le> len'" "j + len' \<le> length seq"
  shows "(join (slice seq i (i + len)) = join (slice seq j (j + len')))
         = (slice seq i (i + len) = slice seq j (j + len'))"
proof
  assume "join (slice seq i (i + len)) = join (slice seq j (j + len'))"
  then show "slice seq i (i + len) = slice seq j (j + len')"
    using join_inj[OF slice_nonempty[OF assms(2,3)] slice_nonempty[OF assms(4,5)]
        slice_comma_free[OF cf] slice_comma_free[OF cf]]
    by blast
qed simp

lemma key_repeats_iff:
  assumes cf: "\<forall>m \<in> set seq. comma_free m" and "1 \<le> len" "i + 2 * len \<le> length seq"
  shows "key_repeats seq len i = repeats seq len i"
proof -
  have e: "i + len + len = i + 2 * len" by arith
  have b: "i + len \<le> length seq" "i + len + len \<le> length seq" using assms(3) by arith+
  have "(join (slice seq i (i + len)) = join (slice seq (i + len) (i + len + len)))
         = (slice seq i (i + len) = slice seq (i + len) (i + len + len))"
    by (rule key_eq_iff[OF cf assms(2) b(1) assms(2) b(2)])
  then have "(join (slice seq i (i + len)) = join (slice seq (i + len) (i + 2 * len)))
         = (slice seq i (i + len) = slice seq (i + len) (i + 2 * len))"
    by (simp only: e)
  then show ?thesis
    unfolding key_repeats_def pattern_key_def repeats_def using assms(3) by blast
qed

lemma fresh_key_iff:
  assumes cf: "\<forall>m \<in> set seq. comma_free m" and len: "1 \<le> len" and i: "i + 2 * len \<le> length seq"
    and known: "known_keys seq (len # lens) seen"
  shows "fresh_key seen seq len i = first_repeat seq len i"
proof -
  have r: "key_repeats seq len j = repeats seq len j" if "j \<le> i" for j
    using that key_repeats_iff[OF cf len, of j] i by simp
  have k: "(pattern_key seq len j = pattern_key seq len i)
            = (slice seq j (j + len) = slice seq i (i + len))" if "j \<le> i" for j
    unfolding pattern_key_def using that i len by (intro key_eq_iff[OF cf]) auto
  have unseen: "pattern_key seq len i \<notin> set seen"
  proof
    assume "pattern_key seq len i \<in> set seen"
    then obtain len' j where h: "len' \<notin> set (len # lens)" "1 \<le> len'" "j + 2 * len' \<le> length seq"
        "pattern_key seq len i = pattern_key seq len' j"
      using known unfolding known_keys_def by blast
    have "(join (slice seq i (i + len)) = join (slice seq j (j + len')))
         = (slice seq i (i + len) = slice seq j (j + len'))"
      using h(2,3) i len by (intro key_eq_iff[OF cf]) auto
    then have "slice seq i (i + len) = slice seq j (j + len')"
      using h(4) by (simp add: pattern_key_def)
    then have "length (slice seq i (i + len)) = length (slice seq j (j + len'))" by simp
    then have "len = len'" using i h(3) by (simp add: slice_length)
    with h(1) show False by simp
  qed
  show ?thesis
    unfolding fresh_key_def first_repeat_def using unseen r k
    by (auto simp: less_imp_le)
qed

lemma outer_loop:
  assumes cf: "\<forall>m \<in> set seq. comma_free m"
  shows "distinct lens \<Longrightarrow> \<forall>len \<in> set lens. 1 \<le> len \<Longrightarrow> known_keys seq lens seen0 \<Longrightarrow>
     fst (foldl (\<lambda>acc len. foldl (cycle_step seq len) acc (cycle_positions (length seq) len))
            (cs0, seen0) lens)
     = cs0 @ concat (map (\<lambda>len. map (cycle_at seq len)
                                  (filter (first_repeat seq len) (cycle_positions (length seq) len)))
                       lens)"
proof (induction lens arbitrary: cs0 seen0)
  case Nil
  show ?case by simp
next
  case (Cons len lens)
  let ?pos = "cycle_positions (length seq) len"
  have len: "1 \<le> len" using Cons.prems(2) by simp
  have pos: "i + 2 * len \<le> length seq" if "i \<in> set ?pos" for i
    using that by (auto simp: cycle_positions_def)
  have fil: "filter (fresh_key seen0 seq len) ?pos = filter (first_repeat seq len) ?pos"
    by (rule filter_cong[OF refl]) (simp add: fresh_key_iff[OF cf len pos Cons.prems(3)])
  have inner: "foldl (cycle_step seq len) (cs0, seen0) ?pos =
      (cs0 @ map (cycle_at seq len) (filter (first_repeat seq len) ?pos),
       seen0 @ map (pattern_key seq len) (filter (first_repeat seq len) ?pos))"
    unfolding cycle_positions_def inner_loop using fil by (simp add: cycle_positions_def)
  have known': "known_keys seq lens (seen0 @ map (pattern_key seq len) (filter (first_repeat seq len) ?pos))"
    unfolding known_keys_def
  proof
    fix k assume "k \<in> set (seen0 @ map (pattern_key seq len) (filter (first_repeat seq len) ?pos))"
    then consider "k \<in> set seen0" | i where "i \<in> set ?pos" "k = pattern_key seq len i"
      by auto
    then show "\<exists>len' j. len' \<notin> set lens \<and> 1 \<le> len' \<and> j + 2 * len' \<le> length seq
                          \<and> k = pattern_key seq len' j"
    proof cases
      case 1
      then show ?thesis using Cons.prems(3) unfolding known_keys_def by fastforce
    next
      case 2
      then show ?thesis using Cons.prems(1) len pos by auto
    qed
  qed
  have "distinct lens" "\<forall>l \<in> set lens. 1 \<le> l" using Cons.prems by simp_all
  from Cons.IH[OF this known'] show ?case by (simp add: inner)
qed

lemma cycle_step_mono: "set (fst acc) \<subseteq> set (fst (cycle_step seq len acc i))"
  by (cases acc) (auto simp: cycle_step_def Let_def)

lemma inner_mono: "set (fst acc) \<subseteq> set (fst (foldl (cycle_step seq len) acc is))"
proof (induction "is" arbitrary: acc)
  case Nil
  show ?case by simp
next
  case (Cons i "is")
  have "set (fst acc) \<subseteq> set (fst (cycle_step seq len acc i))" by (rule cycle_step_mono)
  also have "\<dots> \<subseteq> set (fst (foldl (cycle_step seq len) (cycle_step seq len acc i) is))"
    by (rule Cons.IH)
  finally show ?case by simp
qed

lemma outer_mono:
  "set (fst acc) \<subseteq>
     set (fst (foldl (\<lambda>acc len. foldl (cycle_step seq len) acc (cycle_positions n len)) acc lens))"
proof (induction lens arbitrary: acc)
  case Nil
  show ?case by simp
next
  case (Cons len lens)
  have "set (fst acc) \<subseteq> set (fst (foldl (cycle_step seq len) acc (cycle_positions n len)))"
    by (rule inner_mono)
  also have "\<dots> \<subseteq> set (fst (foldl (\<lambda>acc len. foldl (cycle_step seq len) acc (cycle_positions n len))
        (foldl (cycle_step seq len) acc (cycle_positions n len)) lens))"
    by (rule Cons.IH)
  finally show ?case by simp
qed

lemma in_cycles_iff:
  assumes res: "cs = concat (map (\<lambda>len. map (cycle_at seq len)
                 (filter (first_repeat seq len) (cycle_positions (length seq) len))) lens)"
  shows "(c \<in> set cs) =
           (cycleLength c \<in> set lens
            \<and> first_repeat seq (cycleLength c) (startIndex c)
            \<and> pattern c = slice seq (startIndex c) (startIndex c + cycleLength c))"
proof -
  have pos: "(i \<in> set (cycle_positions (length seq) len) \<and> first_repeat seq len i)
      = first_repeat seq len i" for i len
    by (auto simp: cycle_positions_def first_repeat_def repeats_def)
  have c: "(c = cycle_at seq len i) =
      (cycleLength c = len \<and> startIndex c = i \<and> pattern c = slice seq i (i + len))" for i len
    by (cases c) (auto simp: cycle_at_def)
  have "(c \<in> set cs) = (\<exists>len \<in> set lens. \<exists>i. (i \<in> set (cycle_positions (length seq) len)
            \<and> first_repeat seq len i) \<and> c = cycle_at seq len i)"
    unfolding res by auto
  also have "\<dots> = (\<exists>len \<in> set lens. \<exists>i. first_repeat seq len i \<and> cycleLength c = len
            \<and> startIndex c = i \<and> pattern c = slice seq i (i + len))"
    by (simp only: pos c)
  also have "\<dots> = (cycleLength c \<in> set lens
            \<and> first_repeat seq (cycleLength c) (startIndex c)
            \<and> pattern c = slice seq (startIndex c) (startIndex c + cycleLength c))"
    by blast
  finally show ?thesis .
qed

lemma repeated_pair_found:
  "\<lparr>pattern = [A, B], startIndex = 0, cycleLength = 2\<rparr> \<in> set (identifyModeCycles [A, B, A, B, A, B])"
proof -
  let ?seq = "[A, B, A, B, A, B]"
  let ?c = "\<lparr>pattern = [A, B], startIndex = 0, cycleLength = 2\<rparr>"
  have p: "cycle_positions (length ?seq) 2 = 0 # [1, 2]"
    by code_simp
  have s0: "cycle_step ?seq 2 ([], []) 0 = ([?c], [join [A, B]])"
    by (simp add: cycle_step_def slice_def Let_def)
  have "?c \<in> set (fst (cycle_step ?seq 2 ([], []) 0))" by (simp add: s0)
  then have "?c \<in> set (fst (foldl (cycle_step ?seq 2) (cycle_step ?seq 2 ([], []) 0) [1, 2]))"
    using inner_mono by blast
  then have "?c \<in> set (fst (foldl (cycle_step ?seq 2) ([], []) (cycle_positions (length ?seq) 2)))"
    by (simp only: p foldl_Cons)
  then have "?c \<in> set (fst (foldl (\<lambda>acc len. foldl (cycle_step ?seq len) acc (cycle_positions (length ?seq) len))
        (foldl (cycle_step ?seq 2) ([], []) (cycle_positions (length ?seq) 2)) [3, 4, 5]))"
    using outer_mono by blast
  then show ?thesis by (simp only: identifyModeCycles_def foldl_Cons)
qed

text \<open>
  Claim C9 (as amended). For a mode sequence none of whose mode names contains a comma,
  identifyModeCycles reports the cycle with pattern p, start index i and length len
  exactly when len is 2, 3, 4 or 5, the len modes from position i are immediately
  followed by the same len modes, p is that subsequence, and no earlier position repeats
  with the same subsequence. For every A and B the sequence A, B, A, B, A, B yields the
  cycle of length 2 with pattern A, B at index 0.
\<close>

theorem cycles_of_comma_free_sequence:
  assumes "\<forall>m \<in> set modeSequence. comma_free m"
  shows "(c \<in> set (identifyModeCycles modeSequence)) =
           (cycleLength c \<in> {2, 3, 4, 5}
            \<and> first_repeat modeSequence (cycleLength c) (startIndex c)
            \<and> pattern c = slice modeSequence (startIndex c) (startIndex c + cycleLength c))
       \<and> \<lparr>pattern = [A, B], startIndex = 0, cycleLength = 2\<rparr>
            \<in> set (identifyModeCycles [A, B, A, B, A, B])"
proof -
  have k0: "known_keys modeSequence [2, 3, 4, 5] []" by (simp add: known_keys_def)
  have res: "identifyModeCycles modeSequence =
      concat (map (\<lambda>len. map (cycle_at modeSequence len)
                 (filter (first_repeat modeSequence len) (cycle_positions (length modeSequence) len)))
              [2, 3, 4, 5])"
    unfolding identifyModeCycles_def using outer_loop[OF assms _ _ k0, of "[]"] by simp
  show ?thesis using in_cycles_iff[OF res, of c] repeated_pair_found[of A B] by simp
qed

text \<open>
  With commas in the mode names two different subsequences can have the same joined
  text, and a cycle is reported although the subsequence is not repeated.
\<close>

theorem cycles_of_comma_free_sequence_counterexample:
  "identifyModeCycles [''a,b'', ''c'', ''a'', ''b,c''] =
     [\<lparr>pattern = [''a,b'', ''c''], startIndex = 0, cycleLength = 2\<rparr>]
   \<and> slice [''a,b'', ''c'', ''a'', ''b,c''] 0 2 = [''a,b'', ''c'']
   \<and> slice [''a,b'', ''c'', ''a'', ''b,c''] 2 4 = [''a'', ''b,c'']"
proof -
  let ?seq = "[''a,b'', ''c'', ''a'', ''b,c'']"
  have p: "cycle_positions (length ?seq) 2 = [0]" "cycle_positions (length ?seq) 3 = []"
      "cycle_positions (length ?seq) 4 = []" "cycle_positions (length ?seq) 5 = []"
    by (simp_all add: cycle_positions_def)
  have s: "cycle_step ?seq 2 ([], []) 0 =
      ([\<lparr>pattern = [''a,b'', ''c''], startIndex = 0, cycleLength = 2\<rparr>], [''a,b,c''])"
    by (simp add: cycle_step_def slice_def Let_def)
  have "identifyModeCycles ?seq = [\<lparr>pattern = [''a,b'', ''c''], startIndex = 0, cycleLength = 2\<rparr>]"
    by (simp only: identifyModeCycles_def p foldl.simps s fst_conv)
  then show ?thesis by (simp add: slice_def)
qed

theorem cycles_of_comma_free_sequence_witness:
  "\<lparr>pattern = [''research'', ''plan''], startIndex = 0, cycleLength = 2\<rparr>
     \<in> set (identifyModeCycles [''research'', ''plan'', ''research'', ''plan''])
   \<and> \<lparr>pattern = [''plan'', ''research''], startIndex = 1, cycleLength = 2\<rparr>
     \<notin> set (identifyModeCycles [''research'', ''plan'', ''research'', ''plan''])"
proof -
  have cf: "\<forall>m \<in> set [''research'', ''plan'', ''research'', ''plan'']. comma_free m"
    by (simp add: comma_free_def)
  have r0: "first_repeat [''research'', ''plan'', ''research'', ''plan''] 2 0"
    by (simp add: first_repeat_def repeats_def slice_def)
  have r1: "\<not> first_repeat [''research'', ''plan'', ''research'', ''plan''] 2 1"
    by (simp add: first_repeat_def repeats_def)
  show ?thesis
    using cycles_of_comma_free_sequence[OF cf,
            of "\<lparr>pattern = [''research'', ''plan''], startIndex = 0, cycleLength = 2\<rparr>"]
          cycles_of_comma_free_sequence[OF cf,
            of "\<lparr>pattern = [''plan'', ''research''], startIndex = 1, cycleLength = 2\<rparr>"]
          r0 r1
    by (simp add: slice_def)
qed

end
